theory Spec2Isabelle
  imports Complex_Main "HOL-Library.Multiset" "HOL-Library.Log_Nat"
begin

section \<open>Data model of \<open>static/js/app.js\<close>\<close>

text \<open>
  A browser \<open>File\<close> handle, as far as the script reads it: its name and its size.
\<close>

record file_handle =
  file_name :: string
  file_size :: nat

text \<open>
  A job record as the list and status endpoints deliver it. \<open>progress\<close> is a JavaScript
  number, that is a finite double, held as the rational number it denotes; \<open>message\<close> is
  \<open>None\<close> when the field is null or absent; \<open>created_at\<close> is the instant
  \<open>new Date(job.created_at)\<close> denotes, in milliseconds since the epoch.
\<close>

record job =
  job_id :: string
  status :: string
  progress :: rat
  message :: "string option"
  created_at :: int
  total_files :: int

text \<open>
  The value of an arithmetic expression on finite doubles: a finite double, again held as
  the rational it denotes, or one of the two infinities.
\<close>

datatype js_number =
  Finite rat
  | PosInfinity
  | NegInfinity

text \<open>The text \<open>formatTimestamp\<close> produces: one of its three return statements.\<close>

datatype timestamp_text =
  JustNow
  | MinutesAgo int bool
  | LocaleDate int

text \<open>
  One history card: the template literal of \<open>createJobCardHTML\<close> with its fixed markup
  left out and one field for each interpolated expression. \<open>card_progress\<close> and
  \<open>card_message\<close> are \<open>None\<close> when the conditional block renders the empty string.
\<close>

record card =
  card_job_id :: string
  card_color :: string
  card_icon :: string
  card_status :: string
  card_time :: timestamp_text
  card_files :: int
  card_plural :: bool
  card_progress :: "js_number option"
  card_message :: "string option"
  card_download :: bool

text \<open>
  The variables of one call of \<open>startJobMonitoring\<close>, shared by the firings of its
  interval callback: \<open>errorCount\<close>, whether \<open>checkInterval\<close> is still set, and how
  many of its status requests have been issued and not yet answered. The callback is
  \<open>async\<close> and \<open>setInterval\<close> does not wait for it, so several requests can be in
  flight, and a request issued before \<open>clearInterval\<close> is still answered after it.
\<close>

record monitor =
  errorCount :: nat
  checkInterval :: bool
  inFlight :: nat

text \<open>
  The mutable world of the script: the \<open>state\<close> object, the properties of the
  \<open>elements\<close> the functions write, the notices raised with \<open>alert\<close>, the monitors in
  the order of the calls of \<open>startJobMonitoring\<close>, and the number of pending timeouts
  that will call \<open>resetUploadUI\<close>.
\<close>

record app =
  selectedFiles :: "file_handle list"
  currentJobId :: "string option"
  jobs :: "job list"
  fileInput_value :: string
  uploadArea_hidden :: bool
  fileList_hidden :: bool
  fileList_items :: "file_handle list"
  uploadActions_hidden :: bool
  processingStatus_hidden :: bool
  statusTitle :: string
  statusMessage :: string
  progressFill :: js_number
  progressText :: js_number
  historyLoading_hidden :: bool
  historyEmpty_hidden :: bool
  historyList_hidden :: bool
  historyList :: "card list"
  alerts :: "string list"
  monitors :: "monitor list"
  resetTimeouts :: nat

section \<open>String helpers\<close>

text \<open>
  Strings are byte strings. Case conversion acts on the letters A to Z and a to z, which
  is all that the suffix test on \<open>.pdf\<close> and the capital of a status can observe.
\<close>

definition upperCaseLetters :: string where
  "upperCaseLetters = ''ABCDEFGHIJKLMNOPQRSTUVWXYZ''"

definition lowerCaseLetters :: string where
  "lowerCaseLetters = ''abcdefghijklmnopqrstuvwxyz''"

definition toLowerCase :: "string \<Rightarrow> string" where
  "toLowerCase s =
     map (\<lambda>c. case map_of (zip upperCaseLetters lowerCaseLetters) c of
                 Some l \<Rightarrow> l | None \<Rightarrow> c) s"

definition toUpperCase :: "string \<Rightarrow> string" where
  "toUpperCase s =
     map (\<lambda>c. case map_of (zip lowerCaseLetters upperCaseLetters) c of
                 Some u \<Rightarrow> u | None \<Rightarrow> c) s"

definition endsWith :: "string \<Rightarrow> string \<Rightarrow> bool" where
  "endsWith s suffix \<longleftrightarrow>
     length suffix \<le> length s \<and> drop (length s - length suffix) s = suffix"

section \<open>Numbers\<close>

text \<open>
  JavaScript numbers are IEEE 754 doubles and \<open>*\<close> rounds the exact product to the
  nearest double, ties to the even significand. \<open>pow2 e\<close> is the power of two with an
  integer exponent, and \<open>floor_log2 a\<close>, for a positive \<open>a\<close>, the exponent \<open>e\<close> with
  \<open>pow2 e \<le> a < pow2 (e + 1)\<close>.
\<close>

definition pow2 :: "int \<Rightarrow> rat" where
  "pow2 e = (if 0 \<le> e then 2 ^ nat e else 1 / 2 ^ nat (- e))"

definition floor_log2 :: "rat \<Rightarrow> int" where
  "floor_log2 a =
     (if 1 \<le> a then bitlen \<lfloor>a\<rfloor> - 1 else - bitlen (\<lceil>1 / a\<rceil> - 1))"

definition round_half_even :: "rat \<Rightarrow> int" where
  "round_half_even y =
     (let f = \<lfloor>y\<rfloor>;
          r = y - of_int f
      in if r < 1 / 2 then f
         else if 1 / 2 < r then f + 1
         else if even f then f else f + 1)"

text \<open>
  The double nearest to an exact value. The significand has 53 bits; below
  \<open>pow2 (- 1022)\<close> the spacing of the doubles stays \<open>pow2 (- 1074)\<close>; a result that
  rounds to \<open>pow2 1024\<close> or beyond is an infinity.
\<close>

definition toDouble :: "rat \<Rightarrow> js_number" where
  "toDouble x =
     (if x = 0 then Finite 0
      else
        (let a = \<bar>x\<bar>;
             q = max (floor_log2 a) (- 1022) - 52;
             r = of_int (round_half_even (a / pow2 q)) * pow2 q
         in if pow2 1024 \<le> r then (if 0 < x then PosInfinity else NegInfinity)
            else Finite (if 0 < x then r else - r)))"

text \<open>
  \<open>Math.round\<close> gives the nearest integer, a tie going to the larger one, and leaves
  an infinity as it is.
\<close>

definition Math_round :: "js_number \<Rightarrow> js_number" where
  "Math_round x =
     (case x of
        Finite v \<Rightarrow> Finite (of_int \<lfloor>v + 1 / 2\<rfloor>)
      | PosInfinity \<Rightarrow> PosInfinity
      | NegInfinity \<Rightarrow> NegInfinity)"

section \<open>Selection of files\<close>

definition renderFileList :: "app \<Rightarrow> app" where
  "renderFileList st =
     (if length (selectedFiles st) = 0
      then st\<lparr>fileList_hidden := True, uploadActions_hidden := True\<rparr>
      else st\<lparr>fileList_hidden := False, uploadActions_hidden := False,
              fileList_items := selectedFiles st\<rparr>)"

definition handleFiles :: "file_handle list \<Rightarrow> app \<Rightarrow> app" where
  "handleFiles files st =
     (let pdfFiles = filter (\<lambda>f. endsWith (toLowerCase (file_name f)) ''.pdf'') files
      in if length pdfFiles = 0
         then st\<lparr>alerts := alerts st @ [''Please select PDF files only'']\<rparr>
         else renderFileList (st\<lparr>selectedFiles := pdfFiles\<rparr>))"

text \<open>
  \<open>removeFile\<close> is called from the remove button of the file rendered at \<open>index\<close>;
  \<open>splice(index, 1)\<close> takes out the file at that position, if there is one.
\<close>

definition removeFile :: "nat \<Rightarrow> app \<Rightarrow> app" where
  "removeFile index st =
     renderFileList
       (st\<lparr>selectedFiles :=
            take index (selectedFiles st) @ drop (Suc index) (selectedFiles st)\<rparr>)"

definition clearFiles :: "app \<Rightarrow> app" where
  "clearFiles st = renderFileList (st\<lparr>selectedFiles := [], fileInput_value := []\<rparr>)"

definition resetUploadUI :: "app \<Rightarrow> app" where
  "resetUploadUI st =
     renderFileList
       (st\<lparr>currentJobId := None, selectedFiles := [], fileInput_value := [],
           processingStatus_hidden := True, uploadArea_hidden := False\<rparr>)"

section \<open>Upload\<close>

text \<open>
  \<open>startJobMonitoring\<close> declares \<open>errorCount = 0\<close> and sets the one-second interval:
  a new monitor. Its call of \<open>fetchJobs\<close> only issues a request; what happens when the
  list arrives is the synchronizer's \<open>fetchJobs\<close> below.
\<close>

definition MAX_ERRORS :: nat where
  "MAX_ERRORS = 3"

definition startJobMonitoring :: "app \<Rightarrow> app" where
  "startJobMonitoring st =
     st\<lparr>monitors := monitors st @ [\<lparr>errorCount = 0, checkInterval = True, inFlight = 0\<rparr>]\<rparr>"

text \<open>
  The answer to \<open>POST /api/upload\<close>: the request fails, or a response arrives with its
  status code and, when the body parses, the \<open>job_id\<close> it carries.
\<close>

datatype upload_response =
  UploadRejected
  | UploadResponse nat "string option"

definition response_ok :: "nat \<Rightarrow> bool" where
  "response_ok code \<longleftrightarrow> 200 \<le> code \<and> code \<le> 299"

text \<open>\<open>uploadFiles\<close> up to its \<open>await fetch\<close>.\<close>

definition uploadFiles_start :: "app \<Rightarrow> app" where
  "uploadFiles_start st =
     (if length (selectedFiles st) = 0 then st
      else st\<lparr>uploadArea_hidden := True, fileList_hidden := True,
              uploadActions_hidden := True, processingStatus_hidden := False\<rparr>)"

text \<open>\<open>uploadFiles\<close> from the point where the request has settled.\<close>

definition uploadFiles_finish :: "upload_response \<Rightarrow> app \<Rightarrow> app" where
  "uploadFiles_finish resp st =
     (let failed = resetUploadUI (st\<lparr>alerts := alerts st @ [''Upload failed. Please try again.'']\<rparr>)
      in case resp of
           UploadRejected \<Rightarrow> failed
         | UploadResponse code body \<Rightarrow>
             if \<not> response_ok code then failed
             else (case body of
                     None \<Rightarrow> failed
                   | Some jid \<Rightarrow> startJobMonitoring (st\<lparr>currentJobId := Some jid\<rparr>)))"

definition uploadFiles :: "upload_response \<Rightarrow> app \<Rightarrow> app" where
  "uploadFiles resp st =
     (if length (selectedFiles st) = 0 then st
      else uploadFiles_finish resp (uploadFiles_start st))"

section \<open>Rendering of job cards\<close>

definition formatTimestamp :: "int \<Rightarrow> int \<Rightarrow> timestamp_text" where
  "formatTimestamp now date =
     (let diffMs = now - date;
          diffMins = diffMs div 60000
      in if diffMins < 1 then JustNow
         else if diffMins < 60 then MinutesAgo diffMins (diffMins \<noteq> 1)
         else LocaleDate date)"

definition getStatusColor :: "string \<Rightarrow> string" where
  "getStatusColor s =
     (case map_of [(''pending'', ''#f59e0b''), (''uploading'', ''#3b82f6''),
                   (''processing'', ''#8b5cf6''), (''completed'', ''#22c55e''),
                   (''failed'', ''#ef4444'')] s of
        Some c \<Rightarrow> c
      | None \<Rightarrow> ''#6b7280'')"

text \<open>The icon is named by the key of the \<open>icons\<close> table whose markup is returned.\<close>

definition getStatusIcon :: "string \<Rightarrow> string" where
  "getStatusIcon s =
     (if s \<in> set [''pending'', ''uploading'', ''processing'', ''completed'', ''failed'']
      then s else ''pending'')"

definition createJobCardHTML :: "int \<Rightarrow> job \<Rightarrow> card" where
  "createJobCardHTML now j =
     \<lparr>card_job_id = job_id j,
      card_color = getStatusColor (status j),
      card_icon = getStatusIcon (status j),
      card_status = status j,
      card_time = formatTimestamp now (created_at j),
      card_files = total_files j,
      card_plural = (total_files j \<noteq> 1),
      card_progress =
        (if status j = ''processing'' \<or> status j = ''uploading''
         then Some (Math_round (toDouble (progress j * 100))) else None),
      card_message =
        (case message j of
           None \<Rightarrow> None
         | Some m \<Rightarrow> if m = [] then None else Some m),
      card_download = (status j = ''completed'')\<rparr>"

text \<open>
  \<open>renderJobs\<close> sorts a copy of the cache with the comparator
  \<open>new Date(b.created_at) - new Date(a.created_at)\<close>, that is by \<open>created_at\<close>
  descending, and the sort is stable.
\<close>

definition renderJobs :: "int \<Rightarrow> app \<Rightarrow> app" where
  "renderJobs now st =
     (let sortedJobs = sort_key (\<lambda>j. - created_at j) (jobs st)
      in st\<lparr>historyList := map (createJobCardHTML now) sortedJobs\<rparr>)"

section \<open>Job list synchronizer\<close>

definition showEmptyHistory :: "app \<Rightarrow> app" where
  "showEmptyHistory st =
     st\<lparr>historyLoading_hidden := True, historyEmpty_hidden := False,
        historyList_hidden := True\<rparr>"

text \<open>
  \<open>document.querySelector\<close> on the \<open>data-job-id\<close> attribute followed by
  \<open>replaceWith\<close>: the first card carrying the id is replaced; \<open>None\<close> when there is no
  such card.
\<close>

fun replaceWith :: "string \<Rightarrow> card \<Rightarrow> card list \<Rightarrow> card list option" where
  "replaceWith jid new [] = None"
| "replaceWith jid new (c # cs) =
     (if card_job_id c = jid then Some (new # cs)
      else map_option ((#) c) (replaceWith jid new cs))"

fun updateSpecificCards :: "int \<Rightarrow> job list \<Rightarrow> app \<Rightarrow> app" where
  "updateSpecificCards now [] st = st"
| "updateSpecificCards now (j # js) st =
     (case replaceWith (job_id j) (createJobCardHTML now j) (historyList st) of
        Some cards \<Rightarrow> updateSpecificCards now js (st\<lparr>historyList := cards\<rparr>)
      | None \<Rightarrow> renderJobs now st)"

text \<open>
  The \<open>for (const newJob of newJobs)\<close> loop of \<open>updateJobsSelectively\<close>, with
  \<open>jobsToUpdate\<close> as accumulator; \<open>None\<close> when it leaves through the full re-render
  because \<open>oldJobs.find\<close> came back empty.
\<close>

fun collectJobsToUpdate :: "job list \<Rightarrow> job list \<Rightarrow> job list \<Rightarrow> job list option" where
  "collectJobsToUpdate oldJobs [] jobsToUpdate = Some jobsToUpdate"
| "collectJobsToUpdate oldJobs (newJob # rest) jobsToUpdate =
     (case find (\<lambda>j. job_id j = job_id newJob) oldJobs of
        None \<Rightarrow> None
      | Some oldJob \<Rightarrow>
          (let isActive = (status newJob = ''pending'' \<or>
                           status newJob = ''uploading'' \<or>
                           status newJob = ''processing'')
           in if isActive
              then (if status oldJob \<noteq> status newJob \<or>
                       progress oldJob \<noteq> progress newJob \<or>
                       message oldJob \<noteq> message newJob
                    then collectJobsToUpdate oldJobs rest (jobsToUpdate @ [newJob])
                    else collectJobsToUpdate oldJobs rest jobsToUpdate)
              else if status oldJob \<noteq> status newJob
                   then collectJobsToUpdate oldJobs rest (jobsToUpdate @ [newJob])
                   else collectJobsToUpdate oldJobs rest jobsToUpdate))"

definition updateJobsSelectively :: "int \<Rightarrow> job list \<Rightarrow> app \<Rightarrow> app" where
  "updateJobsSelectively now newJobs st =
     (let oldJobs = jobs st;
          st1 = st\<lparr>historyLoading_hidden := True\<rparr>
      in if length newJobs = 0 then showEmptyHistory st1
         else
           (let st2 = st1\<lparr>historyEmpty_hidden := True, historyList_hidden := False\<rparr>
            in if length oldJobs \<noteq> length newJobs
               then renderJobs now (st2\<lparr>jobs := newJobs\<rparr>)
               else (case collectJobsToUpdate oldJobs newJobs [] of
                       None \<Rightarrow> renderJobs now (st2\<lparr>jobs := newJobs\<rparr>)
                     | Some jobsToUpdate \<Rightarrow>
                         (let st3 = st2\<lparr>jobs := newJobs\<rparr>
                          in if length jobsToUpdate > 0
                             then updateSpecificCards now jobsToUpdate st3
                             else st3))))"

text \<open>
  The answer to \<open>GET /api/jobs\<close>: the request or the parsing of its body fails, or a
  response arrives with its status code and the list \<open>data.jobs || []\<close>.
\<close>

datatype jobs_response =
  JobsRejected
  | JobsResponse nat "job list"

definition fetchJobs :: "int \<Rightarrow> jobs_response \<Rightarrow> app \<Rightarrow> app" where
  "fetchJobs now resp st =
     (case resp of
        JobsRejected \<Rightarrow> showEmptyHistory st
      | JobsResponse code newJobs \<Rightarrow>
          if \<not> response_ok code then showEmptyHistory st
          else updateJobsSelectively now newJobs st)"

section \<open>Active job monitor\<close>

text \<open>
  The answer to \<open>GET /api/jobs/{id}/status\<close>: the request fails, or a response arrives
  with its status code and, when the body parses, the job record.
\<close>

datatype status_response =
  StatusRejected
  | StatusResponse nat "job option"

definition capitalize :: "string \<Rightarrow> string" where
  "capitalize s = toUpperCase (take 1 s) @ drop 1 s"

text \<open>A write to the variables of the monitor with index \<open>k\<close>.\<close>

definition updateMonitor :: "nat \<Rightarrow> (monitor \<Rightarrow> monitor) \<Rightarrow> app \<Rightarrow> app" where
  "updateMonitor k f st = st\<lparr>monitors := (monitors st)[k := f (monitors st ! k)]\<rparr>"

text \<open>The \<open>catch\<close> block of the interval callback of monitor \<open>k\<close>.\<close>

definition monitoringError :: "nat \<Rightarrow> app \<Rightarrow> app" where
  "monitoringError k st =
     (let st1 = updateMonitor k (\<lambda>m. m\<lparr>errorCount := errorCount m + 1\<rparr>) st
      in if errorCount (monitors st1 ! k) \<ge> MAX_ERRORS
         then resetUploadUI
                ((updateMonitor k (\<lambda>m. m\<lparr>checkInterval := False\<rparr>) st1)
                   \<lparr>alerts := alerts st1 @
                      [''Lost connection to server. Please check processing history for updates.'']\<rparr>)
         else st1)"

text \<open>
  The interval of monitor \<open>k\<close> fires: the callback runs up to its \<open>await fetch\<close>. A
  cleared interval does not fire. Without a job id (\<open>!state.currentJobId\<close> holds for null
  and for the empty string) the callback clears the interval and returns; otherwise it
  issues a status request.
\<close>

definition checkIntervalFires :: "nat \<Rightarrow> app \<Rightarrow> app" where
  "checkIntervalFires k st =
     (if k < length (monitors st) \<and> checkInterval (monitors st ! k)
      then (if (case currentJobId st of None \<Rightarrow> True | Some jid \<Rightarrow> jid = [])
            then updateMonitor k (\<lambda>m. m\<lparr>checkInterval := False\<rparr>) st
            else updateMonitor k (\<lambda>m. m\<lparr>inFlight := inFlight m + 1\<rparr>) st)
      else st)"

text \<open>
  A status request of monitor \<open>k\<close> is answered: the callback runs from its
  \<open>await fetch\<close> to its end, whether or not the interval has been cleared since the
  request was issued.
\<close>

definition statusSettles :: "nat \<Rightarrow> status_response \<Rightarrow> app \<Rightarrow> app" where
  "statusSettles k resp st =
     (if k < length (monitors st) \<and> 0 < inFlight (monitors st ! k)
      then
        (let st0 = updateMonitor k (\<lambda>m. m\<lparr>inFlight := inFlight m - 1\<rparr>) st
         in case resp of
              StatusRejected \<Rightarrow> monitoringError k st0
            | StatusResponse code body \<Rightarrow>
                if \<not> response_ok code
                then (if code = 404
                      then resetUploadUI
                             (updateMonitor k (\<lambda>m. m\<lparr>checkInterval := False\<rparr>) st0)
                      else monitoringError k st0)
                else (case body of
                        None \<Rightarrow> monitoringError k st0
                      | Some j \<Rightarrow>
                          (let st1 = (updateMonitor k (\<lambda>m. m\<lparr>errorCount := 0\<rparr>) st0)
                                 \<lparr>statusTitle := capitalize (status j),
                                  statusMessage :=
                                    (case message j of
                                       None \<Rightarrow> ''Processing...''
                                     | Some m \<Rightarrow> if m = [] then ''Processing...'' else m),
                                  progressFill := Math_round (toDouble (progress j * 100)),
                                  progressText := Math_round (toDouble (progress j * 100))\<rparr>
                           in if status j = ''completed'' \<or> status j = ''failed''
                              then (updateMonitor k (\<lambda>m. m\<lparr>checkInterval := False\<rparr>) st1)
                                     \<lparr>resetTimeouts := resetTimeouts st1 + 1\<rparr>
                              else st1)))
      else st)"

text \<open>
  A firing of the interval of monitor \<open>k\<close> together with the answer to the request it
  issues, nothing happening in between.
\<close>

definition checkIntervalTick :: "nat \<Rightarrow> status_response \<Rightarrow> app \<Rightarrow> app" where
  "checkIntervalTick k resp st =
     (if k < length (monitors st) \<and> checkInterval (monitors st ! k) \<and>
         \<not> (case currentJobId st of None \<Rightarrow> True | Some jid \<Rightarrow> jid = [])
      then statusSettles k resp (checkIntervalFires k st)
      else checkIntervalFires k st)"

text \<open>One of the two-second timeouts set on a terminal status fires.\<close>

definition resetTimeoutFires :: "app \<Rightarrow> app" where
  "resetTimeoutFires st =
     (if 0 < resetTimeouts st
      then resetUploadUI (st\<lparr>resetTimeouts := resetTimeouts st - 1\<rparr>)
      else st)"

text \<open>
  A run of monitor \<open>k\<close> in which every status request is answered before the interval
  fires again.
\<close>

definition monitorRun :: "nat \<Rightarrow> status_response list \<Rightarrow> app \<Rightarrow> app" where
  "monitorRun k resps st = fold (checkIntervalTick k) resps st"

section \<open>Reachable states\<close>

text \<open>
  The states the page can be in: it starts with an empty cache and an empty history list,
  and every event handler, timer firing and answered request runs to completion before
  the next, in any order. The list endpoint delivers at most one record per job id.
\<close>

inductive reachable :: "app \<Rightarrow> bool" where
  reachable_load: "jobs st = [] \<Longrightarrow> historyList st = [] \<Longrightarrow> reachable st"
| reachable_handleFiles: "reachable st \<Longrightarrow> reachable (handleFiles files st)"
| reachable_removeFile: "reachable st \<Longrightarrow> reachable (removeFile index st)"
| reachable_clearFiles: "reachable st \<Longrightarrow> reachable (clearFiles st)"
| reachable_uploadFiles_start: "reachable st \<Longrightarrow> reachable (uploadFiles_start st)"
| reachable_uploadFiles_finish: "reachable st \<Longrightarrow> reachable (uploadFiles_finish uresp st)"
| reachable_checkIntervalFires: "reachable st \<Longrightarrow> reachable (checkIntervalFires k st)"
| reachable_statusSettles: "reachable st \<Longrightarrow> reachable (statusSettles k sresp st)"
| reachable_resetTimeoutFires: "reachable st \<Longrightarrow> reachable (resetTimeoutFires st)"
| reachable_fetchJobs_failed: "reachable st \<Longrightarrow> reachable (fetchJobs now JobsRejected st)"
| reachable_fetchJobs:
    "reachable st \<Longrightarrow> distinct (map job_id newJobs) \<Longrightarrow>
     reachable (fetchJobs now (JobsResponse code newJobs) st)"

section \<open>Vocabulary of the statements\<close>

text \<open>
  A status request that fails other than by a not-found response: the request is
  rejected, the response is not ok with a code other than 404, or its body does not parse.
\<close>

fun requestFailed :: "status_response \<Rightarrow> bool" where
  "requestFailed StatusRejected = True"
| "requestFailed (StatusResponse code body) =
     (if response_ok code then body = None else code \<noteq> 404)"

text \<open>An upload that ends in the \<open>catch\<close> block of \<open>uploadFiles\<close>.\<close>

fun uploadFailed :: "upload_response \<Rightarrow> bool" where
  "uploadFailed UploadRejected = True"
| "uploadFailed (UploadResponse code body) = (\<not> response_ok code \<or> body = None)"

definition connectivityNotice :: string where
  "connectivityNotice = ''Lost connection to server. Please check processing history for updates.''"

text \<open>The view shows the upload area and not the processing status.\<close>

definition viewSelecting :: "app \<Rightarrow> bool" where
  "viewSelecting st \<longleftrightarrow> \<not> uploadArea_hidden st \<and> processingStatus_hidden st"

text \<open>
  Monitor \<open>k\<close> is watching: its interval is set and there is a job id to ask for.
\<close>

definition watching :: "nat \<Rightarrow> app \<Rightarrow> bool" where
  "watching k st \<longleftrightarrow>
     k < length (monitors st) \<and> checkInterval (monitors st ! k) \<and>
     (case currentJobId st of None \<Rightarrow> False | Some jid \<Rightarrow> jid \<noteq> [])"

text \<open>
  The comparison as the specification words it: a job is active when its status is
  pending, uploading or processing; an active job has changed when its status, progress
  or message differs from the cached record, any other job when its status differs.
\<close>

definition spec_isActive :: "job \<Rightarrow> bool" where
  "spec_isActive j \<longleftrightarrow> status j \<in> {''pending'', ''uploading'', ''processing''}"

definition spec_changed :: "job \<Rightarrow> job \<Rightarrow> bool" where
  "spec_changed cached new \<longleftrightarrow>
     (if spec_isActive new
      then status new \<noteq> status cached \<or> progress new \<noteq> progress cached \<or>
           message new \<noteq> message cached
      else status new \<noteq> status cached)"

text \<open>A job of the new snapshot has changed against its record in the cache.\<close>

definition markedChanged :: "job list \<Rightarrow> job \<Rightarrow> bool" where
  "markedChanged oldJobs new =
     (case find (\<lambda>j. job_id j = job_id new) oldJobs of
        None \<Rightarrow> False
      | Some cached \<Rightarrow> spec_changed cached new)"

text \<open>The cards of a full re-render of a snapshot.\<close>

definition fullRender :: "int \<Rightarrow> job list \<Rightarrow> card list" where
  "fullRender now snapshot =
     map (createJobCardHTML now) (sort_key (\<lambda>j. - created_at j) snapshot)"

text \<open>Every cached job has its card in the history list, and no two cards share an id.\<close>

definition cardsInSync :: "app \<Rightarrow> bool" where
  "cardsInSync st \<longleftrightarrow>
     distinct (map card_job_id (historyList st)) \<and>
     job_id ` set (jobs st) \<subseteq> card_job_id ` set (historyList st)"

section \<open>Example values\<close>

text \<open>
  The page as the script finds it: the \<open>state\<close> object as declared, the upload area
  shown, the history still loading, no timer set.
\<close>

definition pageLoad :: app where
  "pageLoad =
     \<lparr>selectedFiles = [], currentJobId = None, jobs = [],
      fileInput_value = [], uploadArea_hidden = False, fileList_hidden = True,
      fileList_items = [], uploadActions_hidden = True, processingStatus_hidden = True,
      statusTitle = [], statusMessage = [], progressFill = Finite 0,
      progressText = Finite 0,
      historyLoading_hidden = False, historyEmpty_hidden = True,
      historyList_hidden = True, historyList = [], alerts = [],
      monitors = [], resetTimeouts = 0\<rparr>"

definition invoicePdf :: file_handle where
  "invoicePdf = \<lparr>file_name = ''Invoice.PDF'', file_size = 2048\<rparr>"

definition notesTxt :: file_handle where
  "notesTxt = \<lparr>file_name = ''notes.txt'', file_size = 12\<rparr>"

definition scanPdf :: file_handle where
  "scanPdf = \<lparr>file_name = ''scan.pdf'', file_size = 4096\<rparr>"

definition jobA :: job where
  "jobA = \<lparr>job_id = ''a1'', status = ''processing'', progress = 1 / 2,
           message = Some ''Extracting'', created_at = 1000, total_files = 2\<rparr>"

text \<open>The page once one file has been selected and its upload has succeeded.\<close>

definition monitoring :: app where
  "monitoring = uploadFiles (UploadResponse 200 (Some ''a1'')) (handleFiles [invoicePdf] pageLoad)"

text \<open>
  The interval of that monitor has fired four times and no request has been answered
  yet; then all four requests fail.
\<close>

definition fourInFlight :: app where
  "fourInFlight =
     checkIntervalFires 0 (checkIntervalFires 0 (checkIntervalFires 0
       (checkIntervalFires 0 monitoring)))"

definition fourFailures :: app where
  "fourFailures =
     statusSettles 0 StatusRejected (statusSettles 0 StatusRejected
       (statusSettles 0 StatusRejected (statusSettles 0 StatusRejected fourInFlight)))"



definition jobDone :: job where
  "jobDone = \<lparr>job_id = ''b2'', status = ''completed'', progress = 1,
              message = Some ''Done'', created_at = 2000, total_files = 1\<rparr>"

definition jobA_parsing :: job where
  "jobA_parsing = jobA\<lparr>message := Some ''Parsing''\<rparr>"

definition jobDone_exported :: job where
  "jobDone_exported = jobDone\<lparr>message := Some ''Exported''\<rparr>"

text \<open>The history after a first list of two jobs, and after a first list of one.\<close>

definition historyShown :: app where
  "historyShown = fetchJobs 5000 (JobsResponse 200 [jobA, jobDone]) pageLoad"

definition doneShown :: app where
  "doneShown = fetchJobs 5000 (JobsResponse 200 [jobDone]) pageLoad"

section \<open>Properties of the selection\<close>

lemma pdf_names:
  "endsWith (toLowerCase ''Invoice.PDF'') ''.pdf''"
  "\<not> endsWith (toLowerCase ''notes.txt'') ''.pdf''"
  "endsWith (toLowerCase ''scan.pdf'') ''.pdf''"
  by (simp_all add: endsWith_def toLowerCase_def upperCaseLetters_def lowerCaseLetters_def)

text \<open>
  C8. \<open>handleFiles\<close> keeps exactly the files whose lower-cased name ends in \<open>.pdf\<close>.
  When none is left it raises the notice and changes nothing else; otherwise the kept
  files become the selection and no notice is raised.
\<close>

theorem handleFiles_accepts_pdf_only:
  "(filter (\<lambda>f. endsWith (toLowerCase (file_name f)) ''.pdf'') files = [] \<longrightarrow>
      handleFiles files st = st\<lparr>alerts := alerts st @ [''Please select PDF files only'']\<rparr>) \<and>
   (filter (\<lambda>f. endsWith (toLowerCase (file_name f)) ''.pdf'') files \<noteq> [] \<longrightarrow>
      selectedFiles (handleFiles files st) =
        filter (\<lambda>f. endsWith (toLowerCase (file_name f)) ''.pdf'') files \<and>
      alerts (handleFiles files st) = alerts st)"
  by (simp add: handleFiles_def renderFileList_def Let_def)

theorem handleFiles_accepts_pdf_only_witness:
  "selectedFiles (handleFiles [invoicePdf, notesTxt] pageLoad) = [invoicePdf] \<and>
   handleFiles [notesTxt] pageLoad = pageLoad\<lparr>alerts := [''Please select PDF files only'']\<rparr>"
  using handleFiles_accepts_pdf_only [of "[invoicePdf, notesTxt]" pageLoad]
    handleFiles_accepts_pdf_only [of "[notesTxt]" pageLoad]
  by (simp add: invoicePdf_def notesTxt_def pdf_names pageLoad_def)

text \<open>
  C10. When at least one file passes the filter, the selection after \<open>handleFiles\<close> is
  the filtered list alone, whatever was selected before: the earlier selection has no
  influence on the result.
\<close>

theorem handleFiles_replaces_selection:
  "\<exists>f \<in> set files. endsWith (toLowerCase (file_name f)) ''.pdf'' \<Longrightarrow>
   selectedFiles (handleFiles files st) =
     filter (\<lambda>f. endsWith (toLowerCase (file_name f)) ''.pdf'') files \<and>
   fileList_items (handleFiles files st) =
     filter (\<lambda>f. endsWith (toLowerCase (file_name f)) ''.pdf'') files \<and>
   handleFiles files (st\<lparr>selectedFiles := earlier\<rparr>) = handleFiles files st"
  by (auto simp add: handleFiles_def renderFileList_def Let_def filter_empty_conv)

theorem handleFiles_replaces_selection_witness:
  "(\<exists>f \<in> set [scanPdf]. endsWith (toLowerCase (file_name f)) ''.pdf'') \<and>
   selectedFiles (handleFiles [invoicePdf] pageLoad) = [invoicePdf] \<and>
   selectedFiles (handleFiles [scanPdf] (handleFiles [invoicePdf] pageLoad)) = [scanPdf]"
  using handleFiles_replaces_selection [of "[scanPdf]" "handleFiles [invoicePdf] pageLoad"]
    handleFiles_replaces_selection [of "[invoicePdf]" pageLoad]
  by (simp add: invoicePdf_def scanPdf_def pdf_names)

section \<open>Properties of the numbers\<close>

lemma round_half_even_near: "\<bar>of_int (round_half_even y) - y\<bar> \<le> 1 / 2"
proof -
  let ?f = "\<lfloor>y\<rfloor>"
  have f: "of_int ?f \<le> y" "y < of_int ?f + 1" by linarith+
  consider "y - of_int ?f < 1 / 2" | "1 / 2 < y - of_int ?f" | "y - of_int ?f = 1 / 2"
    by linarith
  then show ?thesis
  proof cases
    case 1
    then have "round_half_even y = ?f" by (simp add: round_half_even_def Let_def)
    then show ?thesis using 1 f by simp
  next
    case 2
    then have "round_half_even y = ?f + 1" by (simp add: round_half_even_def Let_def)
    then show ?thesis using 2 f by simp
  next
    case 3
    then have "round_half_even y = ?f \<or> round_half_even y = ?f + 1"
      by (simp add: round_half_even_def Let_def)
    then show ?thesis using 3 f by auto
  qed
qed

lemma pow2_pos: "0 < pow2 e"
  by (simp add: pow2_def)


lemma floor_log2_bounds:
  assumes "0 < a"
  shows "pow2 (floor_log2 a) \<le> a \<and> a < pow2 (floor_log2 a + 1)"
proof (cases "1 \<le> a")
  case True
  let ?n = "\<lfloor>a\<rfloor>"
  have n: "0 < ?n" using True by linarith
  have b: "1 \<le> bitlen ?n" using n bitlen_eq_zero_iff [of ?n] bitlen_nonneg [of ?n] by linarith
  from bitlen_bounds [OF n] have lo: "2 ^ nat (bitlen ?n - 1) \<le> ?n" and hi: "?n < 2 ^ nat (bitlen ?n)"
    by simp_all
  have "(of_int (2 ^ nat (bitlen ?n - 1)) :: rat) \<le> of_int ?n" using lo by (simp only: of_int_le_iff)
  then have "(2::rat) ^ nat (bitlen ?n - 1) \<le> of_int ?n" by simp
  moreover have "of_int ?n \<le> a" by linarith
  ultimately have l: "(2::rat) ^ nat (bitlen ?n - 1) \<le> a" by linarith
  have "?n + 1 \<le> 2 ^ nat (bitlen ?n)" using hi by simp
  then have "(of_int (?n + 1) :: rat) \<le> of_int (2 ^ nat (bitlen ?n))" by (simp only: of_int_le_iff)
  then have "of_int ?n + 1 \<le> (2::rat) ^ nat (bitlen ?n)" by simp
  moreover have "a < of_int ?n + 1" by linarith
  ultimately have h: "a < (2::rat) ^ nat (bitlen ?n)" by linarith
  show ?thesis using True b l h by (simp add: floor_log2_def pow2_def)
next
  case False
  let ?k = "\<lceil>1 / a\<rceil>"
  have inv: "1 < 1 / a" using False assms by simp
  have k: "0 < ?k - 1" using inv by linarith
  let ?b = "bitlen (?k - 1)"
  have b: "1 \<le> ?b" using k bitlen_eq_zero_iff [of "?k - 1"] bitlen_nonneg [of "?k - 1"] by linarith
  from bitlen_bounds [OF k] have lo: "2 ^ nat (?b - 1) \<le> ?k - 1" and hi: "?k - 1 < 2 ^ nat ?b"
    by simp_all
  have "?k \<le> 2 ^ nat ?b" using hi by simp
  then have "(of_int ?k :: rat) \<le> of_int (2 ^ nat ?b)" by (simp only: of_int_le_iff)
  then have "of_int ?k \<le> (2::rat) ^ nat ?b" by simp
  moreover have "1 / a \<le> of_int ?k" by linarith
  ultimately have "1 / a \<le> (2::rat) ^ nat ?b" by linarith
  then have l: "1 / 2 ^ nat ?b \<le> a"
    using assms by (simp add: field_simps)
  have "(of_int (2 ^ nat (?b - 1)) :: rat) \<le> of_int (?k - 1)" using lo by (simp only: of_int_le_iff)
  then have "(2::rat) ^ nat (?b - 1) \<le> of_int ?k - 1" by simp
  moreover have "of_int ?k - 1 < 1 / a" by linarith
  ultimately have "(2::rat) ^ nat (?b - 1) < 1 / a" by linarith
  then have h': "a * 2 ^ nat (?b - 1) < 1"
    using assms by (simp add: field_simps)
  have h: "a < pow2 (- ?b + 1)"
  proof (cases "?b = 1")
    case True
    then show ?thesis using h' by (simp add: pow2_def)
  next
    case c: False
    then have "nat (?b - 1) = nat (- (- ?b + 1))" "\<not> 0 \<le> - ?b + 1" using b by simp_all
    then show ?thesis using h' by (simp add: pow2_def field_simps)
  qed
  show ?thesis using False b l h by (simp add: floor_log2_def pow2_def)
qed

lemma quantum_error:
  assumes "0 < a"
  shows "\<bar>of_int (round_half_even (a / pow2 q)) * pow2 q - a\<bar> \<le> pow2 q / 2"
proof -
  let ?m = "of_int (round_half_even (a / pow2 q)) :: rat"
  have p: "0 < pow2 q" by (rule pow2_pos)
  have "\<bar>?m - a / pow2 q\<bar> \<le> 1 / 2" by (rule round_half_even_near)
  then have "\<bar>?m - a / pow2 q\<bar> * pow2 q \<le> 1 / 2 * pow2 q"
    using p by (simp add: mult_right_mono)
  moreover have "\<bar>?m - a / pow2 q\<bar> * pow2 q = \<bar>?m * pow2 q - a\<bar>"
  proof -
    have "\<bar>?m - a / pow2 q\<bar> * pow2 q = \<bar>(?m - a / pow2 q) * pow2 q\<bar>"
      using p by (simp add: abs_mult)
    also have "(?m - a / pow2 q) * pow2 q = ?m * pow2 q - a"
      using p by (simp add: field_simps)
    finally show ?thesis .
  qed
  ultimately show ?thesis by simp
qed

lemma toDouble_error:
  assumes "x \<noteq> 0" and "toDouble x = Finite v"
  shows "\<bar>v - x\<bar> \<le> pow2 (max (floor_log2 \<bar>x\<bar>) (- 1022) - 52) / 2"
proof -
  define q where "q = max (floor_log2 \<bar>x\<bar>) (- 1022) - 52"
  define r where "r = of_int (round_half_even (\<bar>x\<bar> / pow2 q)) * pow2 q"
  have a: "0 < \<bar>x\<bar>" using assms(1) by simp
  have e: "\<bar>r - \<bar>x\<bar>\<bar> \<le> pow2 q / 2"
    unfolding r_def by (rule quantum_error [OF a])
  have "toDouble x =
        (if pow2 1024 \<le> r then (if 0 < x then PosInfinity else NegInfinity)
         else Finite (if 0 < x then r else - r))"
    using assms(1) by (simp add: toDouble_def Let_def q_def r_def)
  then have v: "v = (if 0 < x then r else - r)"
    using assms(2) by (simp split: if_splits)
  have "\<bar>v - x\<bar> \<le> pow2 q / 2"
  proof (cases "0 < x")
    case True
    then show ?thesis using v e by simp
  next
    case False
    then have "\<bar>x\<bar> = - x" using assms(1) by simp
    then have "\<bar>r + x\<bar> \<le> pow2 q / 2" using e by simp
    moreover have "\<bar>- r - x\<bar> = \<bar>r + x\<bar>" by linarith
    ultimately show ?thesis using v False by simp
  qed
  then show ?thesis by (simp only: q_def)
qed









section \<open>Properties of the active job monitor\<close>

lemma resetUploadUI_fields:
  "monitors (resetUploadUI st) = monitors st"
  "resetTimeouts (resetUploadUI st) = resetTimeouts st"
  "alerts (resetUploadUI st) = alerts st"
  "jobs (resetUploadUI st) = jobs st"
  "historyList (resetUploadUI st) = historyList st"
  "progressText (resetUploadUI st) = progressText st"
  "progressFill (resetUploadUI st) = progressFill st"
  "selectedFiles (resetUploadUI st) = []"
  "currentJobId (resetUploadUI st) = None"
  "uploadArea_hidden (resetUploadUI st) = False"
  "processingStatus_hidden (resetUploadUI st) = True"
  by (simp_all add: resetUploadUI_def renderFileList_def)

lemma updateMonitor_fields:
  "length (monitors (updateMonitor k f st)) = length (monitors st)"
  "k < length (monitors st) \<Longrightarrow> monitors (updateMonitor k f st) ! k = f (monitors st ! k)"
  "resetTimeouts (updateMonitor k f st) = resetTimeouts st"
  "alerts (updateMonitor k f st) = alerts st"
  "jobs (updateMonitor k f st) = jobs st"
  "historyList (updateMonitor k f st) = historyList st"
  "selectedFiles (updateMonitor k f st) = selectedFiles st"
  "currentJobId (updateMonitor k f st) = currentJobId st"
  "viewSelecting (updateMonitor k f st) = viewSelecting st"
  by (simp_all add: updateMonitor_def viewSelecting_def)

lemma updateMonitor_twice:
  "k < length (monitors st) \<Longrightarrow>
   updateMonitor k f (updateMonitor k g st) = updateMonitor k (\<lambda>m. f (g m)) st"
  by (simp add: updateMonitor_def)

lemma updateMonitor_same:
  "k < length (monitors st) \<Longrightarrow> f (monitors st ! k) = monitors st ! k \<Longrightarrow>
   updateMonitor k f st = st"
  by (simp add: updateMonitor_def)

lemma viewSelecting_reset: "viewSelecting (resetUploadUI st)"
  by (simp add: viewSelecting_def resetUploadUI_fields)

lemma monitoringError_fields:
  assumes "k < length (monitors st)"
  shows "errorCount (monitors (monitoringError k st) ! k) = errorCount (monitors st ! k) + 1"
    "checkInterval (monitors (monitoringError k st) ! k) =
       (checkInterval (monitors st ! k) \<and> errorCount (monitors st ! k) + 1 < MAX_ERRORS)"
    "inFlight (monitors (monitoringError k st) ! k) = inFlight (monitors st ! k)"
    "length (monitors (monitoringError k st)) = length (monitors st)"
    "alerts (monitoringError k st) =
       (if errorCount (monitors st ! k) + 1 \<ge> MAX_ERRORS
        then alerts st @ [connectivityNotice] else alerts st)"
    "resetTimeouts (monitoringError k st) = resetTimeouts st"
    "currentJobId (monitoringError k st) =
       (if errorCount (monitors st ! k) + 1 \<ge> MAX_ERRORS then None else currentJobId st)"
    "viewSelecting (monitoringError k st) =
       (if errorCount (monitors st ! k) + 1 \<ge> MAX_ERRORS then True else viewSelecting st)"
  using assms
  by (auto simp add: monitoringError_def Let_def resetUploadUI_fields updateMonitor_fields
      connectivityNotice_def viewSelecting_reset)

lemma watching_parts:
  "watching k st \<Longrightarrow>
   k < length (monitors st) \<and> checkInterval (monitors st ! k) \<and>
   \<not> (case currentJobId st of None \<Rightarrow> True | Some jid \<Rightarrow> jid = [])"
  by (simp add: watching_def split: option.splits)

lemma monitoringError_watching:
  "watching k st \<Longrightarrow>
   watching k (monitoringError k st) = (errorCount (monitors st ! k) + 1 < MAX_ERRORS)"
  by (auto simp add: watching_def monitoringError_fields)

text \<open>A request issued and at once answered leaves the count of requests in flight.\<close>

lemma issue_and_answer:
  assumes "k < length (monitors st)"
  shows "updateMonitor k (\<lambda>m. m\<lparr>inFlight := inFlight m - 1\<rparr>)
           (updateMonitor k (\<lambda>m. m\<lparr>inFlight := inFlight m + 1\<rparr>) st) = st"
  using assms by (simp add: updateMonitor_twice updateMonitor_same)

lemma fires_watching:
  "watching k st \<Longrightarrow>
   checkIntervalFires k st = updateMonitor k (\<lambda>m. m\<lparr>inFlight := inFlight m + 1\<rparr>) st"
  using watching_parts [of k st] by (simp add: checkIntervalFires_def)

lemma settles_failed:
  assumes "k < length (monitors st)" and "0 < inFlight (monitors st ! k)"
    and "requestFailed resp"
  shows "statusSettles k resp st =
         monitoringError k (updateMonitor k (\<lambda>m. m\<lparr>inFlight := inFlight m - 1\<rparr>) st)"
  using assms
  by (cases resp) (auto simp add: statusSettles_def Let_def split: if_splits option.splits)

lemma settles_not_found:
  assumes "k < length (monitors st)" and "0 < inFlight (monitors st ! k)"
  shows "statusSettles k (StatusResponse 404 body) st =
         resetUploadUI
           (updateMonitor k (\<lambda>m. m\<lparr>checkInterval := False\<rparr>)
              (updateMonitor k (\<lambda>m. m\<lparr>inFlight := inFlight m - 1\<rparr>) st))"
  using assms by (simp add: statusSettles_def Let_def response_ok_def)

lemma settles_success_fields:
  assumes "k < length (monitors st)" and "0 < inFlight (monitors st ! k)"
    and "response_ok code"
  shows "errorCount (monitors (statusSettles k (StatusResponse code (Some j)) st) ! k) = 0"
    "progressText (statusSettles k (StatusResponse code (Some j)) st) =
       Math_round (toDouble (progress j * 100))"
    "progressFill (statusSettles k (StatusResponse code (Some j)) st) =
       Math_round (toDouble (progress j * 100))"
  using assms
  by (simp_all add: statusSettles_def Let_def updateMonitor_def)

lemma tick_watching:
  assumes "watching k st"
  shows "checkIntervalTick k resp st =
         statusSettles k resp (updateMonitor k (\<lambda>m. m\<lparr>inFlight := inFlight m + 1\<rparr>) st)"
  using assms watching_parts [OF assms] by (simp add: checkIntervalTick_def fires_watching)

lemma tick_failed:
  assumes "watching k st" and "requestFailed resp"
  shows "checkIntervalTick k resp st = monitoringError k st"
proof -
  have k: "k < length (monitors st)" using watching_parts [OF assms(1)] by simp
  let ?st = "updateMonitor k (\<lambda>m. m\<lparr>inFlight := inFlight m + 1\<rparr>) st"
  have "statusSettles k resp ?st =
        monitoringError k (updateMonitor k (\<lambda>m. m\<lparr>inFlight := inFlight m - 1\<rparr>) ?st)"
    using k assms(2) by (intro settles_failed) (simp_all add: updateMonitor_fields)
  then show ?thesis
    by (simp only: tick_watching [OF assms(1)] issue_and_answer [OF k])
qed

lemma tick_not_found:
  assumes "watching k st"
  shows "checkIntervalTick k (StatusResponse 404 body) st =
         resetUploadUI (updateMonitor k (\<lambda>m. m\<lparr>checkInterval := False\<rparr>) st)"
proof -
  have k: "k < length (monitors st)" using watching_parts [OF assms] by simp
  let ?st = "updateMonitor k (\<lambda>m. m\<lparr>inFlight := inFlight m + 1\<rparr>) st"
  have "statusSettles k (StatusResponse 404 body) ?st =
        resetUploadUI
           (updateMonitor k (\<lambda>m. m\<lparr>checkInterval := False\<rparr>)
              (updateMonitor k (\<lambda>m. m\<lparr>inFlight := inFlight m - 1\<rparr>) ?st))"
    using k by (intro settles_not_found) (simp_all add: updateMonitor_fields)
  then show ?thesis
    by (simp only: tick_watching [OF assms] issue_and_answer [OF k])
qed

lemma tick_success_fields:
  assumes "watching k st" and "response_ok code"
  shows "errorCount (monitors (checkIntervalTick k (StatusResponse code (Some j)) st) ! k) = 0"
    "length (monitors (checkIntervalTick k (StatusResponse code (Some j)) st)) =
       length (monitors st)"
    "alerts (checkIntervalTick k (StatusResponse code (Some j)) st) = alerts st"
    "checkInterval (monitors (checkIntervalTick k (StatusResponse code (Some j)) st) ! k) =
       (status j \<noteq> ''completed'' \<and> status j \<noteq> ''failed'')"
    "currentJobId (checkIntervalTick k (StatusResponse code (Some j)) st) = currentJobId st"
    "viewSelecting (checkIntervalTick k (StatusResponse code (Some j)) st) = viewSelecting st"
    "progressText (checkIntervalTick k (StatusResponse code (Some j)) st) =
       Math_round (toDouble (progress j * 100))"
    "progressFill (checkIntervalTick k (StatusResponse code (Some j)) st) =
       Math_round (toDouble (progress j * 100))"
  using assms watching_parts [OF assms(1)]
  by (auto simp add: tick_watching statusSettles_def Let_def updateMonitor_def viewSelecting_def)

lemma response_cases:
  "requestFailed resp \<or> (\<exists>body. resp = StatusResponse 404 body) \<or>
   (\<exists>code j. resp = StatusResponse code (Some j) \<and> response_ok code)"
  by (cases resp) (auto simp add: response_ok_def)

lemma tick_not_watching:
  "\<not> watching k st \<Longrightarrow> checkIntervalTick k resp st = checkIntervalFires k st"
  by (auto simp add: checkIntervalTick_def watching_def split: option.splits)

lemma fires_length:
  "length (monitors (checkIntervalFires k st)) = length (monitors st)"
  by (simp add: checkIntervalFires_def updateMonitor_fields)

lemma tick_length:
  "length (monitors (checkIntervalTick k resp st)) = length (monitors st)"
proof (cases "watching k st")
  case False
  then show ?thesis by (simp add: tick_not_watching fires_length)
next
  case True
  then have k: "k < length (monitors st)" using watching_parts by blast
  show ?thesis
    using response_cases [of resp] True k
    by (auto simp add: tick_failed tick_not_found monitoringError_fields tick_success_fields
        resetUploadUI_fields updateMonitor_fields)
qed

lemma tick_invariant:
  assumes "k < length (monitors st)"
    and "checkInterval (monitors st ! k) \<longrightarrow> errorCount (monitors st ! k) < MAX_ERRORS"
  shows "checkInterval (monitors (checkIntervalTick k resp st) ! k) \<longrightarrow>
         errorCount (monitors (checkIntervalTick k resp st) ! k) < MAX_ERRORS"
proof (cases "watching k st")
  case False
  then show ?thesis
    using assms
    by (auto simp add: tick_not_watching checkIntervalFires_def updateMonitor_fields)
next
  case True
  then show ?thesis
    using response_cases [of resp] assms(1)
    by (auto simp add: tick_failed tick_not_found monitoringError_fields tick_success_fields
        resetUploadUI_fields updateMonitor_fields MAX_ERRORS_def)
qed

lemma monitorRun_snoc:
  "monitorRun k (resps @ [r]) st = checkIntervalTick k r (monitorRun k resps st)"
  by (simp add: monitorRun_def)

lemma monitorRun_invariant:
  assumes "k = length (monitors initial)"
  shows "k < length (monitors (monitorRun k resps (startJobMonitoring initial))) \<and>
         (checkInterval (monitors (monitorRun k resps (startJobMonitoring initial)) ! k) \<longrightarrow>
          errorCount (monitors (monitorRun k resps (startJobMonitoring initial)) ! k)
            < MAX_ERRORS)"
proof (induction resps rule: rev_induct)
  case Nil
  show ?case using assms by (simp add: monitorRun_def startJobMonitoring_def MAX_ERRORS_def)
next
  case (snoc r resps)
  then show ?case unfolding monitorRun_snoc by (simp add: tick_length tick_invariant)
qed

lemma monitoring_eval:
  "monitoring =
     pageLoad\<lparr>selectedFiles := [invoicePdf], currentJobId := Some ''a1'',
       uploadArea_hidden := True, fileList_hidden := True, fileList_items := [invoicePdf],
       uploadActions_hidden := True, processingStatus_hidden := False,
       monitors := [\<lparr>errorCount = 0, checkInterval = True, inFlight = 0\<rparr>]\<rparr>"
  by (simp add: monitoring_def uploadFiles_def uploadFiles_start_def uploadFiles_finish_def
      handleFiles_def renderFileList_def startJobMonitoring_def response_ok_def pageLoad_def
      invoicePdf_def pdf_names Let_def)

lemma monitoring_watching: "watching 0 monitoring"
  by (simp add: watching_def monitoring_eval pageLoad_def)

lemma monitoring_started:
  "monitoring =
     startJobMonitoring
       (uploadFiles_start (handleFiles [invoicePdf] pageLoad)\<lparr>currentJobId := Some ''a1''\<rparr>)"
  "length (monitors
     (uploadFiles_start (handleFiles [invoicePdf] pageLoad)\<lparr>currentJobId := Some ''a1''\<rparr>)) = 0"
  by (simp_all add: monitoring_def uploadFiles_def uploadFiles_start_def uploadFiles_finish_def
      response_ok_def handleFiles_def renderFileList_def pdf_names invoicePdf_def pageLoad_def
      Let_def)

text \<open>
  C3, as stated, fails twice over. Two failures followed by a success that reports a
  completed job clear the interval. And when four requests are in flight and all of
  them fail, the third failure clears the interval and raises the notice, and the fourth
  takes the count to 4 and raises the notice again.
\<close>

theorem monitor_threshold_counterexample:
  "\<not> checkInterval
       (monitors (monitorRun 0 [StatusResponse 500 None, StatusRejected,
          StatusResponse 200 (Some jobDone)] monitoring) ! 0) \<and>
   errorCount (monitors fourFailures ! 0) = 4 \<and>
   alerts fourFailures = [connectivityNotice, connectivityNotice]"
  by (simp add: monitorRun_def checkIntervalTick_def checkIntervalFires_def statusSettles_def
      monitoringError_def updateMonitor_def resetUploadUI_def renderFileList_def
      MAX_ERRORS_def response_ok_def monitoring_eval pageLoad_def jobDone_def
      fourFailures_def fourInFlight_def connectivityNotice_def Let_def)

text \<open>
  C3, amended. Whatever the order of firings and answers, an answered status request
  that failed (other than not found) adds one to \<open>errorCount\<close> and a successful one sets
  it to zero. In a run in which every request is answered before the interval fires
  again, in every state where the monitor is watching: the tick clears the interval,
  raises the connectivity notice and shows the upload area again exactly when
  \<open>errorCount\<close> becomes 3, and no other tick raises a notice; two failures followed by a
  success, starting from a count of zero, leave the count at zero with no notice and the
  view as it was, and the interval stays set exactly when that success does not report
  a terminal status.
\<close>

theorem monitor_error_threshold:
  assumes "k = length (monitors initial)"
    and "st = monitorRun k resps (startJobMonitoring initial)"
    and "watching k st"
  shows "(i < length (monitors s) \<and> 0 < inFlight (monitors s ! i) \<and> requestFailed resp \<longrightarrow>
            errorCount (monitors (statusSettles i resp s) ! i) =
              errorCount (monitors s ! i) + 1) \<and>
         (i < length (monitors s) \<and> 0 < inFlight (monitors s ! i) \<and> response_ok code \<longrightarrow>
            errorCount (monitors (statusSettles i (StatusResponse code (Some j)) s) ! i) = 0) \<and>
         (requestFailed resp \<longrightarrow>
            errorCount (monitors (checkIntervalTick k resp st) ! k) =
              errorCount (monitors st ! k) + 1) \<and>
         (response_ok code \<longrightarrow>
            errorCount (monitors (checkIntervalTick k (StatusResponse code (Some j)) st) ! k) = 0) \<and>
         (errorCount (monitors (checkIntervalTick k resp st) ! k) = 3 \<longleftrightarrow>
            \<not> checkInterval (monitors (checkIntervalTick k resp st) ! k) \<and>
            alerts (checkIntervalTick k resp st) = alerts st @ [connectivityNotice] \<and>
            viewSelecting (checkIntervalTick k resp st)) \<and>
         (alerts (checkIntervalTick k resp st) \<noteq> alerts st \<longrightarrow>
            errorCount (monitors (checkIntervalTick k resp st) ! k) = 3) \<and>
         (errorCount (monitors st ! k) = 0 \<and> requestFailed ra \<and> requestFailed rb \<and>
          response_ok code \<longrightarrow>
            errorCount (monitors (monitorRun k [ra, rb, StatusResponse code (Some j)] st) ! k) = 0 \<and>
            alerts (monitorRun k [ra, rb, StatusResponse code (Some j)] st) = alerts st \<and>
            currentJobId (monitorRun k [ra, rb, StatusResponse code (Some j)] st) =
              currentJobId st \<and>
            viewSelecting (monitorRun k [ra, rb, StatusResponse code (Some j)] st) =
              viewSelecting st \<and>
            checkInterval (monitors (monitorRun k [ra, rb, StatusResponse code (Some j)] st) ! k) =
              (status j \<noteq> ''completed'' \<and> status j \<noteq> ''failed''))"
proof -
  have k: "k < length (monitors st)" and run: "checkInterval (monitors st ! k)"
    using watching_parts [OF assms(3)] by simp_all
  have inv: "errorCount (monitors st ! k) < 3"
    using monitorRun_invariant [OF assms(1), of resps] assms(2) run
    by (simp add: MAX_ERRORS_def)
  have g1: "i < length (monitors s) \<and> 0 < inFlight (monitors s ! i) \<and> requestFailed resp \<longrightarrow>
            errorCount (monitors (statusSettles i resp s) ! i) =
              errorCount (monitors s ! i) + 1"
    by (simp add: settles_failed monitoringError_fields updateMonitor_fields)
  have g2: "i < length (monitors s) \<and> 0 < inFlight (monitors s ! i) \<and> response_ok code \<longrightarrow>
            errorCount (monitors (statusSettles i (StatusResponse code (Some j)) s) ! i) = 0"
    by (simp add: settles_success_fields)
  have p1: "requestFailed resp \<longrightarrow>
            errorCount (monitors (checkIntervalTick k resp st) ! k) =
              errorCount (monitors st ! k) + 1"
    using assms(3) k by (simp add: tick_failed monitoringError_fields)
  have p2: "response_ok code \<longrightarrow>
            errorCount (monitors (checkIntervalTick k (StatusResponse code (Some j)) st) ! k) = 0"
    using assms(3) by (simp add: tick_success_fields)
  have p3: "errorCount (monitors (checkIntervalTick k resp st) ! k) = 3 \<longleftrightarrow>
            \<not> checkInterval (monitors (checkIntervalTick k resp st) ! k) \<and>
            alerts (checkIntervalTick k resp st) = alerts st @ [connectivityNotice] \<and>
            viewSelecting (checkIntervalTick k resp st)"
    using response_cases [of resp] assms(3) k run inv
    by (auto simp add: tick_failed tick_not_found monitoringError_fields tick_success_fields
        resetUploadUI_fields updateMonitor_fields MAX_ERRORS_def)
  have p4: "alerts (checkIntervalTick k resp st) \<noteq> alerts st \<longrightarrow>
            errorCount (monitors (checkIntervalTick k resp st) ! k) = 3"
    using response_cases [of resp] assms(3) k run inv
    by (auto simp add: tick_failed tick_not_found monitoringError_fields tick_success_fields
        resetUploadUI_fields updateMonitor_fields MAX_ERRORS_def split: if_splits)
  have p5: "errorCount (monitors st ! k) = 0 \<and> requestFailed ra \<and> requestFailed rb \<and>
          response_ok code \<longrightarrow>
            errorCount (monitors (monitorRun k [ra, rb, StatusResponse code (Some j)] st) ! k) = 0 \<and>
            alerts (monitorRun k [ra, rb, StatusResponse code (Some j)] st) = alerts st \<and>
            currentJobId (monitorRun k [ra, rb, StatusResponse code (Some j)] st) =
              currentJobId st \<and>
            viewSelecting (monitorRun k [ra, rb, StatusResponse code (Some j)] st) =
              viewSelecting st \<and>
            checkInterval (monitors (monitorRun k [ra, rb, StatusResponse code (Some j)] st) ! k) =
              (status j \<noteq> ''completed'' \<and> status j \<noteq> ''failed'')"
  proof (intro impI)
    assume h: "errorCount (monitors st ! k) = 0 \<and> requestFailed ra \<and> requestFailed rb \<and>
          response_ok code"
    let ?s1 = "checkIntervalTick k ra st"
    let ?s2 = "checkIntervalTick k rb ?s1"
    have s1: "?s1 = monitoringError k st" using assms(3) h by (simp add: tick_failed)
    have w1: "watching k ?s1"
      using assms(3) h by (simp add: s1 monitoringError_watching MAX_ERRORS_def)
    have k1: "k < length (monitors ?s1)" using w1 watching_parts by blast
    have c1: "currentJobId ?s1 = currentJobId st" "errorCount (monitors ?s1 ! k) = 1"
      "alerts ?s1 = alerts st" "viewSelecting ?s1 = viewSelecting st"
      using h k by (simp_all add: s1 monitoringError_fields MAX_ERRORS_def)
    have s2: "?s2 = monitoringError k ?s1" using w1 h by (simp add: tick_failed)
    have w2: "watching k ?s2"
      using w1 c1 by (simp add: s2 monitoringError_watching MAX_ERRORS_def)
    have c2: "currentJobId ?s2 = currentJobId st" "errorCount (monitors ?s2 ! k) = 2"
      "alerts ?s2 = alerts st" "viewSelecting ?s2 = viewSelecting st"
      using c1 k1 by (simp_all add: s2 monitoringError_fields MAX_ERRORS_def)
    have run3: "monitorRun k [ra, rb, StatusResponse code (Some j)] st =
               checkIntervalTick k (StatusResponse code (Some j)) ?s2"
      by (simp add: monitorRun_def)
    show "errorCount (monitors (monitorRun k [ra, rb, StatusResponse code (Some j)] st) ! k) = 0 \<and>
          alerts (monitorRun k [ra, rb, StatusResponse code (Some j)] st) = alerts st \<and>
          currentJobId (monitorRun k [ra, rb, StatusResponse code (Some j)] st) =
            currentJobId st \<and>
          viewSelecting (monitorRun k [ra, rb, StatusResponse code (Some j)] st) =
            viewSelecting st \<and>
          checkInterval (monitors (monitorRun k [ra, rb, StatusResponse code (Some j)] st) ! k) =
            (status j \<noteq> ''completed'' \<and> status j \<noteq> ''failed'')"
      unfolding run3 using c2 w2 h by (simp add: tick_success_fields)
  qed
  from g1 g2 p1 p2 p3 p4 p5 show ?thesis by blast
qed

theorem monitor_error_threshold_witness:
  "errorCount (monitors (monitorRun 0
      [StatusResponse 500 None, StatusRejected, StatusResponse 503 None] monitoring) ! 0) = 3 \<and>
   \<not> checkInterval (monitors (monitorRun 0
      [StatusResponse 500 None, StatusRejected, StatusResponse 503 None] monitoring) ! 0) \<and>
   alerts (monitorRun 0
      [StatusResponse 500 None, StatusRejected, StatusResponse 503 None] monitoring) =
     [connectivityNotice] \<and>
   viewSelecting (monitorRun 0
      [StatusResponse 500 None, StatusRejected, StatusResponse 503 None] monitoring) \<and>
   checkInterval (monitors (monitorRun 0
      [StatusResponse 500 None, StatusRejected, StatusResponse 200 (Some jobA)] monitoring) ! 0) \<and>
   errorCount (monitors (monitorRun 0
      [StatusResponse 500 None, StatusRejected, StatusResponse 200 (Some jobA)] monitoring) ! 0) = 0 \<and>
   errorCount (monitors (statusSettles 0 StatusRejected fourInFlight) ! 0) = 1"
proof -
  let ?initial =
    "uploadFiles_start (handleFiles [invoicePdf] pageLoad)\<lparr>currentJobId := Some ''a1''\<rparr>"
  let ?two = "monitorRun 0 [StatusResponse 500 None, StatusRejected] monitoring"
  have k: "0 = length (monitors ?initial)" by (simp only: monitoring_started(2))
  have two: "?two =
      monitoring\<lparr>monitors := [\<lparr>errorCount = 2, checkInterval = True, inFlight = 0\<rparr>]\<rparr>"
    by (simp add: monitorRun_def checkIntervalTick_def checkIntervalFires_def statusSettles_def
        monitoringError_def updateMonitor_def MAX_ERRORS_def response_ok_def monitoring_eval
        pageLoad_def Let_def)
  have h1: "?two = monitorRun 0 [StatusResponse 500 None, StatusRejected]
      (startJobMonitoring ?initial)"
    by (simp only: monitoring_started(1) [symmetric])
  have h2: "watching 0 ?two"
    unfolding two by (simp add: watching_def monitoring_eval pageLoad_def)
  have h1': "monitoring = monitorRun 0 [] (startJobMonitoring ?initial)"
    by (simp only: monitoring_started(1) [symmetric]) (simp add: monitorRun_def)
  have r3: "monitorRun 0 [StatusResponse 500 None, StatusRejected, StatusResponse 503 None]
              monitoring = checkIntervalTick 0 (StatusResponse 503 None) ?two"
    by (simp add: monitorRun_def)
  have failed: "requestFailed (StatusResponse 500 None)" "requestFailed StatusRejected"
    "requestFailed (StatusResponse 503 None)" "response_ok 200"
    by (simp_all add: response_ok_def)
  have two_fields: "errorCount (monitors ?two ! 0) = 2" "alerts ?two = []"
    unfolding two by (simp_all add: monitoring_eval pageLoad_def)
  have start_fields: "errorCount (monitors monitoring ! 0) = 0" "status jobA = ''processing''"
    by (simp_all add: monitoring_eval pageLoad_def jobA_def)
  have flight: "0 < length (monitors fourInFlight)"
    "0 < inFlight (monitors fourInFlight ! 0)" "errorCount (monitors fourInFlight ! 0) = 0"
    by (simp_all add: fourInFlight_def checkIntervalFires_def updateMonitor_def monitoring_eval
        pageLoad_def)
  note third = monitor_error_threshold [where resp = "StatusResponse 503 None", OF k h1 h2]
  note good = monitor_error_threshold [where code = 200 and j = jobA
      and ra = "StatusResponse 500 None" and rb = StatusRejected, OF k h1' monitoring_watching]
  note late = monitor_error_threshold [where resp = StatusRejected and s = fourInFlight
      and i = 0, OF k h1' monitoring_watching]
  have count: "errorCount (monitors (checkIntervalTick 0 (StatusResponse 503 None) ?two) ! 0) = 3"
    using third failed two_fields by simp
  have stop: "\<not> checkInterval (monitors (checkIntervalTick 0 (StatusResponse 503 None) ?two) ! 0) \<and>
      alerts (checkIntervalTick 0 (StatusResponse 503 None) ?two) = [connectivityNotice] \<and>
      viewSelecting (checkIntervalTick 0 (StatusResponse 503 None) ?two)"
    using third count two_fields by simp
  have go: "checkInterval (monitors (monitorRun 0 [StatusResponse 500 None, StatusRejected,
        StatusResponse 200 (Some jobA)] monitoring) ! 0) \<and>
      errorCount (monitors (monitorRun 0 [StatusResponse 500 None, StatusRejected,
        StatusResponse 200 (Some jobA)] monitoring) ! 0) = 0"
    using good failed start_fields by simp
  have over: "errorCount (monitors (statusSettles 0 StatusRejected fourInFlight) ! 0) = 1"
    using late failed flight by simp
  show ?thesis
    unfolding r3 using count stop go over by simp
qed

text \<open>
  C4. A 404 answer to a status request clears the interval and shows the upload area
  again in the step that handles the answer; it sets no timeout, leaves \<open>errorCount\<close> as
  it was and raises no notice. This holds at any tick of a watching monitor, and so also
  at the first, and for any answered request whatever else has happened since it was
  issued.
\<close>

theorem not_found_stops_at_once:
  assumes "watching k st"
  shows "\<not> checkInterval (monitors (checkIntervalTick k (StatusResponse 404 body) st) ! k) \<and>
         viewSelecting (checkIntervalTick k (StatusResponse 404 body) st) \<and>
         currentJobId (checkIntervalTick k (StatusResponse 404 body) st) = None \<and>
         selectedFiles (checkIntervalTick k (StatusResponse 404 body) st) = [] \<and>
         errorCount (monitors (checkIntervalTick k (StatusResponse 404 body) st) ! k) =
           errorCount (monitors st ! k) \<and>
         resetTimeouts (checkIntervalTick k (StatusResponse 404 body) st) = resetTimeouts st \<and>
         alerts (checkIntervalTick k (StatusResponse 404 body) st) = alerts st \<and>
         (i < length (monitors s) \<and> 0 < inFlight (monitors s ! i) \<longrightarrow>
            \<not> checkInterval (monitors (statusSettles i (StatusResponse 404 body) s) ! i) \<and>
            viewSelecting (statusSettles i (StatusResponse 404 body) s) \<and>
            currentJobId (statusSettles i (StatusResponse 404 body) s) = None \<and>
            selectedFiles (statusSettles i (StatusResponse 404 body) s) = [] \<and>
            errorCount (monitors (statusSettles i (StatusResponse 404 body) s) ! i) =
              errorCount (monitors s ! i) \<and>
            resetTimeouts (statusSettles i (StatusResponse 404 body) s) = resetTimeouts s \<and>
            alerts (statusSettles i (StatusResponse 404 body) s) = alerts s)"
proof -
  have k: "k < length (monitors st)" using watching_parts [OF assms] by simp
  have tick: "\<not> checkInterval (monitors (checkIntervalTick k (StatusResponse 404 body) st) ! k) \<and>
         viewSelecting (checkIntervalTick k (StatusResponse 404 body) st) \<and>
         currentJobId (checkIntervalTick k (StatusResponse 404 body) st) = None \<and>
         selectedFiles (checkIntervalTick k (StatusResponse 404 body) st) = [] \<and>
         errorCount (monitors (checkIntervalTick k (StatusResponse 404 body) st) ! k) =
           errorCount (monitors st ! k) \<and>
         resetTimeouts (checkIntervalTick k (StatusResponse 404 body) st) = resetTimeouts st \<and>
         alerts (checkIntervalTick k (StatusResponse 404 body) st) = alerts st"
    using assms k
    by (simp add: tick_not_found resetUploadUI_fields updateMonitor_fields viewSelecting_reset)
  have answer: "i < length (monitors s) \<and> 0 < inFlight (monitors s ! i) \<longrightarrow>
            \<not> checkInterval (monitors (statusSettles i (StatusResponse 404 body) s) ! i) \<and>
            viewSelecting (statusSettles i (StatusResponse 404 body) s) \<and>
            currentJobId (statusSettles i (StatusResponse 404 body) s) = None \<and>
            selectedFiles (statusSettles i (StatusResponse 404 body) s) = [] \<and>
            errorCount (monitors (statusSettles i (StatusResponse 404 body) s) ! i) =
              errorCount (monitors s ! i) \<and>
            resetTimeouts (statusSettles i (StatusResponse 404 body) s) = resetTimeouts s \<and>
            alerts (statusSettles i (StatusResponse 404 body) s) = alerts s"
    by (simp add: settles_not_found resetUploadUI_fields updateMonitor_fields
        viewSelecting_reset)
  from tick answer show ?thesis by blast
qed

theorem not_found_stops_at_once_witness:
  "watching 0 monitoring \<and> \<not> viewSelecting monitoring \<and>
   \<not> checkInterval (monitors (checkIntervalTick 0 (StatusResponse 404 None) monitoring) ! 0) \<and>
   viewSelecting (checkIntervalTick 0 (StatusResponse 404 None) monitoring) \<and>
   errorCount (monitors (checkIntervalTick 0 (StatusResponse 404 None) monitoring) ! 0) = 0 \<and>
   resetTimeouts (checkIntervalTick 0 (StatusResponse 404 None) monitoring) = 0 \<and>
   \<not> checkInterval (monitors (statusSettles 0 (StatusResponse 404 None) fourInFlight) ! 0) \<and>
   viewSelecting (statusSettles 0 (StatusResponse 404 None) fourInFlight)"
proof -
  have flight: "0 < length (monitors fourInFlight)" "0 < inFlight (monitors fourInFlight ! 0)"
    by (simp_all add: fourInFlight_def checkIntervalFires_def updateMonitor_def monitoring_eval
        pageLoad_def)
  have start: "errorCount (monitors monitoring ! 0) = 0" "resetTimeouts monitoring = 0"
    "\<not> viewSelecting monitoring"
    by (simp_all add: monitoring_eval pageLoad_def viewSelecting_def)
  show ?thesis
    using not_found_stops_at_once [where body = None and s = fourInFlight and i = 0,
        OF monitoring_watching]
      flight start monitoring_watching
    by simp
qed



text \<open>No step of a monitor writes the cache or the history list.\<close>

lemma monitoringError_lists:
  "jobs (monitoringError k st) = jobs st"
  "historyList (monitoringError k st) = historyList st"
  by (simp_all add: monitoringError_def resetUploadUI_fields updateMonitor_fields Let_def)

lemma checkIntervalFires_lists:
  "jobs (checkIntervalFires k st) = jobs st"
  "historyList (checkIntervalFires k st) = historyList st"
  by (simp_all add: checkIntervalFires_def updateMonitor_fields)

lemma statusSettles_lists:
  "jobs (statusSettles k sresp st) = jobs st"
  "historyList (statusSettles k sresp st) = historyList st"
  by (cases sresp; simp add: statusSettles_def monitoringError_lists resetUploadUI_fields
      updateMonitor_fields Let_def split: option.splits)+

lemma checkIntervalTick_lists:
  "jobs (checkIntervalTick k sresp st) = jobs st"
  "historyList (checkIntervalTick k sresp st) = historyList st"
  by (simp_all add: checkIntervalTick_def statusSettles_lists checkIntervalFires_lists)

lemma resetTimeoutFires_lists:
  "jobs (resetTimeoutFires st) = jobs st"
  "historyList (resetTimeoutFires st) = historyList st"
  by (simp_all add: resetTimeoutFires_def resetUploadUI_fields)

section \<open>Properties of the upload\<close>

text \<open>
  C7, as stated, fails: after \<open>uploadFiles\<close> has hidden the upload area and issued
  its request, and still after the upload has succeeded, the selection holds the file.
\<close>

theorem selection_kept_on_upload_start_counterexample:
  "selectedFiles (uploadFiles_start (handleFiles [invoicePdf] pageLoad)) \<noteq> [] \<and>
   selectedFiles (uploadFiles (UploadResponse 200 (Some ''a1'')) (handleFiles [invoicePdf] pageLoad)) \<noteq> []"
  by (simp add: uploadFiles_def uploadFiles_start_def uploadFiles_finish_def
      handleFiles_def renderFileList_def startJobMonitoring_def response_ok_def pageLoad_def
      invoicePdf_def pdf_names Let_def)

text \<open>
  C7, amended. \<open>uploadFiles\<close> leaves the selection as it is, both up to its request
  and when the upload succeeds. The selection is emptied when the upload fails, by
  \<open>clearFiles\<close>, and by \<open>resetUploadUI\<close>, which also runs when the timeout set on a
  terminal status fires.
\<close>

theorem selection_cleared_by_reset:
  "selectedFiles (uploadFiles_start st) = selectedFiles st \<and>
   (response_ok code \<longrightarrow>
      selectedFiles (uploadFiles (UploadResponse code (Some jid)) st) = selectedFiles st) \<and>
   (uploadFailed resp \<longrightarrow> selectedFiles (uploadFiles resp st) = []) \<and>
   selectedFiles (clearFiles st) = [] \<and>
   selectedFiles (resetUploadUI st) = [] \<and>
   (0 < resetTimeouts st \<longrightarrow> selectedFiles (resetTimeoutFires st) = [])"
  by (cases resp)
    (auto simp add: uploadFiles_def uploadFiles_start_def uploadFiles_finish_def
      startJobMonitoring_def clearFiles_def renderFileList_def resetUploadUI_fields
      resetTimeoutFires_def Let_def split: option.splits)

theorem selection_cleared_by_reset_witness:
  "selectedFiles (uploadFiles_start (handleFiles [invoicePdf] pageLoad)) = [invoicePdf] \<and>
   selectedFiles monitoring = [invoicePdf] \<and>
   selectedFiles (uploadFiles (UploadResponse 500 None) (handleFiles [invoicePdf] pageLoad)) = [] \<and>
   selectedFiles (resetTimeoutFires
      (checkIntervalTick 0 (StatusResponse 200 (Some jobDone)) monitoring)) = []"
  using selection_cleared_by_reset [of "handleFiles [invoicePdf] pageLoad" 200 "''a1''"
      "UploadResponse 500 None"]
    selection_cleared_by_reset
      [of "checkIntervalTick 0 (StatusResponse 200 (Some jobDone)) monitoring"]
  by (simp add: monitoring_def [symmetric] response_ok_def)
    (simp add: monitoring_eval handleFiles_def renderFileList_def pdf_names invoicePdf_def
      pageLoad_def checkIntervalTick_def checkIntervalFires_def statusSettles_def
      updateMonitor_def response_ok_def jobDone_def Let_def)

section \<open>Properties of the job list synchronizer\<close>

subsection \<open>The three ways through \<open>updateJobsSelectively\<close>\<close>

lemma find_job_None:
  "find (\<lambda>j. job_id j = x) js = None \<longleftrightarrow> x \<notin> job_id ` set js"
  by (auto simp add: find_None_iff)

lemma collect_None_iff:
  "collectJobsToUpdate oldJobs newJobs acc = None \<longleftrightarrow>
   (\<exists>n \<in> set newJobs. job_id n \<notin> job_id ` set oldJobs)"
proof (induction newJobs arbitrary: acc)
  case Nil
  show ?case by simp
next
  case (Cons n ns)
  show ?case
  proof (cases "find (\<lambda>j. job_id j = job_id n) oldJobs")
    case None
    then show ?thesis using find_job_None [of "job_id n" oldJobs] by simp
  next
    case (Some c)
    then have "job_id n \<in> job_id ` set oldJobs"
      using find_job_None [of "job_id n" oldJobs] by auto
    then show ?thesis using Some Cons.IH by (simp add: Let_def)
  qed
qed

lemma collect_Some:
  "collectJobsToUpdate oldJobs newJobs acc = Some upd \<Longrightarrow>
   upd = acc @ filter (markedChanged oldJobs) newJobs"
proof (induction newJobs arbitrary: acc)
  case Nil
  then show ?case by simp
next
  case (Cons n ns)
  show ?case
  proof (cases "find (\<lambda>j. job_id j = job_id n) oldJobs")
    case None
    with Cons.prems show ?thesis by simp
  next
    case (Some c)
    show ?thesis
    proof (cases "spec_changed c n")
      case True
      then have "collectJobsToUpdate oldJobs ns (acc @ [n]) = Some upd"
        using Cons.prems Some
        by (auto simp add: Let_def spec_changed_def spec_isActive_def split: if_splits)
      from Cons.IH [OF this] show ?thesis
        using True Some by (simp add: markedChanged_def)
    next
      case False
      then have "collectJobsToUpdate oldJobs ns acc = Some upd"
        using Cons.prems Some
        by (auto simp add: Let_def spec_changed_def spec_isActive_def split: if_splits)
      from Cons.IH [OF this] show ?thesis
        using False Some by (simp add: markedChanged_def)
    qed
  qed
qed

lemma renderJobs_fields:
  "jobs (renderJobs now st) = jobs st"
  "historyList (renderJobs now st) = fullRender now (jobs st)"
  by (simp_all add: renderJobs_def fullRender_def Let_def)

lemma updateSpecificCards_jobs:
  "jobs (updateSpecificCards now js st) = jobs st"
  by (induction js arbitrary: st) (auto simp add: renderJobs_fields split: option.splits)

lemma update_empty:
  "updateJobsSelectively now [] st =
     showEmptyHistory (st\<lparr>historyLoading_hidden := True\<rparr>)"
  by (simp add: updateJobsSelectively_def)

lemma update_full:
  assumes "newJobs \<noteq> []"
    and "length newJobs \<noteq> length (jobs st) \<or>
         (\<exists>n \<in> set newJobs. job_id n \<notin> job_id ` set (jobs st))"
  shows "updateJobsSelectively now newJobs st =
         renderJobs now (st\<lparr>historyLoading_hidden := True, historyEmpty_hidden := True,
                            historyList_hidden := False, jobs := newJobs\<rparr>)"
proof (cases "length newJobs \<noteq> length (jobs st)")
  case True
  then show ?thesis using assms(1) by (auto simp add: updateJobsSelectively_def Let_def)
next
  case False
  then have "collectJobsToUpdate (jobs st) newJobs [] = None"
    using assms(2) collect_None_iff by blast
  moreover have "jobs st \<noteq> []" using assms(1) False by auto
  ultimately show ?thesis using assms(1) False by (simp add: updateJobsSelectively_def Let_def)
qed

lemma update_selective:
  assumes "newJobs \<noteq> []" and "length newJobs = length (jobs st)"
    and "\<forall>n \<in> set newJobs. job_id n \<in> job_id ` set (jobs st)"
  shows "collectJobsToUpdate (jobs st) newJobs [] =
           Some (filter (markedChanged (jobs st)) newJobs)"
    and "updateJobsSelectively now newJobs st =
         updateSpecificCards now (filter (markedChanged (jobs st)) newJobs)
           (st\<lparr>historyLoading_hidden := True, historyEmpty_hidden := True,
               historyList_hidden := False, jobs := newJobs\<rparr>)"
proof -
  have "collectJobsToUpdate (jobs st) newJobs [] \<noteq> None"
    using assms(3) collect_None_iff by blast
  then obtain upd where upd: "collectJobsToUpdate (jobs st) newJobs [] = Some upd"
    by blast
  from collect_Some [OF this] have eq: "upd = filter (markedChanged (jobs st)) newJobs"
    by simp
  show "collectJobsToUpdate (jobs st) newJobs [] =
           Some (filter (markedChanged (jobs st)) newJobs)"
    using upd eq by simp
  have old: "jobs st \<noteq> []" using assms(1,2) by auto
  show "updateJobsSelectively now newJobs st =
         updateSpecificCards now (filter (markedChanged (jobs st)) newJobs)
           (st\<lparr>historyLoading_hidden := True, historyEmpty_hidden := True,
               historyList_hidden := False, jobs := newJobs\<rparr>)"
  proof (cases "upd = []")
    case True
    then show ?thesis
      using assms(1,2) old upd eq by (simp add: updateJobsSelectively_def Let_def)
  next
    case False
    then show ?thesis
      using assms(1,2) old upd eq by (simp add: updateJobsSelectively_def Let_def)
  qed
qed

lemma updateJobsSelectively_jobs:
  "jobs (updateJobsSelectively now newJobs st) = (if newJobs = [] then jobs st else newJobs)"
proof (cases "newJobs = []")
  case True
  then show ?thesis by (simp add: update_empty showEmptyHistory_def)
next
  case False
  show ?thesis
  proof (cases "length newJobs \<noteq> length (jobs st) \<or>
         (\<exists>n \<in> set newJobs. job_id n \<notin> job_id ` set (jobs st))")
    case True
    with False show ?thesis by (simp add: update_full renderJobs_fields)
  next
    case c: False
    then have "length newJobs = length (jobs st)"
      "\<forall>n \<in> set newJobs. job_id n \<in> job_id ` set (jobs st)" by auto
    with False show ?thesis by (simp add: update_selective updateSpecificCards_jobs)
  qed
qed

lemma example_job_fields:
  "job_id jobA = ''a1''" "job_id jobDone = ''b2''"
  "job_id jobA_parsing = ''a1''" "job_id jobDone_exported = ''b2''"
  "created_at jobA = 1000" "created_at jobDone = 2000"
  "created_at jobA_parsing = 1000" "created_at jobDone_exported = 2000"
  by (simp_all add: jobA_def jobDone_def jobA_parsing_def jobDone_exported_def)

lemma example_changes:
  "spec_changed jobA jobA_parsing" "\<not> spec_changed jobDone jobDone_exported"
  "\<not> spec_changed jobDone jobDone"
  "createJobCardHTML 5000 jobDone_exported \<noteq> createJobCardHTML 5000 jobDone"
  by (simp_all add: spec_changed_def spec_isActive_def jobA_def jobDone_def jobA_parsing_def
      jobDone_exported_def createJobCardHTML_def)

lemma pageLoad_lists: "jobs pageLoad = []" "historyList pageLoad = []"
  by (simp_all add: pageLoad_def)

lemma historyShown_lists:
  "jobs historyShown = [jobA, jobDone]"
  "historyList historyShown = [createJobCardHTML 5000 jobDone, createJobCardHTML 5000 jobA]"
  by (simp_all add: historyShown_def fetchJobs_def response_ok_def update_full pageLoad_lists
      renderJobs_fields fullRender_def example_job_fields)

lemma doneShown_lists:
  "jobs doneShown = [jobDone]"
  "historyList doneShown = [createJobCardHTML 5000 jobDone]"
  by (simp_all add: doneShown_def fetchJobs_def response_ok_def update_full pageLoad_lists
      renderJobs_fields fullRender_def)

text \<open>
  C2, as stated, fails: when the list endpoint answers with an empty list, the cache
  keeps the jobs of the earlier snapshot.
\<close>

theorem cache_kept_on_empty_snapshot_counterexample:
  "jobs (fetchJobs 6000 (JobsResponse 200 []) doneShown) = [jobDone] \<and>
   jobs (fetchJobs 6000 (JobsResponse 200 []) doneShown) \<noteq> []"
  by (simp add: fetchJobs_def response_ok_def update_empty showEmptyHistory_def doneShown_lists)

text \<open>
  C2, amended. After a tick whose fetch succeeds with a non-empty list the cache is that
  list. A tick whose fetch succeeds with an empty list, or fails, leaves the cache as it
  was. The monitor's interval callback and its timeout never write the cache.
\<close>

theorem cache_is_last_nonempty_snapshot:
  "(response_ok code \<and> newJobs \<noteq> [] \<longrightarrow>
      jobs (fetchJobs now (JobsResponse code newJobs) st) = newJobs) \<and>
   (response_ok code \<longrightarrow> jobs (fetchJobs now (JobsResponse code []) st) = jobs st) \<and>
   (\<not> response_ok code \<longrightarrow>
      jobs (fetchJobs now (JobsResponse code newJobs) st) = jobs st) \<and>
   jobs (fetchJobs now JobsRejected st) = jobs st \<and>
   jobs (checkIntervalTick k resp st) = jobs st \<and>
   jobs (checkIntervalFires k st) = jobs st \<and>
   jobs (statusSettles k resp st) = jobs st \<and>
   jobs (resetTimeoutFires st) = jobs st"
proof -
  show ?thesis
    by (simp add: fetchJobs_def updateJobsSelectively_jobs showEmptyHistory_def
        checkIntervalTick_lists checkIntervalFires_lists statusSettles_lists
        resetTimeoutFires_lists)
qed

theorem cache_is_last_nonempty_snapshot_witness:
  "jobs (fetchJobs 5000 (JobsResponse 200 [jobA]) pageLoad) = [jobA] \<and>
   jobs (fetchJobs 6000 (JobsResponse 200 [jobA_parsing, jobDone]) historyShown) =
     [jobA_parsing, jobDone] \<and>
   jobs (fetchJobs 6000 (JobsResponse 200 []) historyShown) = [jobA, jobDone] \<and>
   jobs (fetchJobs 6000 (JobsResponse 500 [jobDone]) historyShown) = [jobA, jobDone] \<and>
   jobs (statusSettles 0 (StatusResponse 200 (Some jobA_parsing)) fourInFlight) = []"
proof -
  have none: "jobs fourInFlight = []"
    by (simp add: fourInFlight_def checkIntervalFires_lists monitoring_eval pageLoad_def)
  show ?thesis
    using cache_is_last_nonempty_snapshot [of 200 "[jobA]" 5000 pageLoad]
      cache_is_last_nonempty_snapshot [of 200 "[jobA_parsing, jobDone]" 6000 historyShown]
      cache_is_last_nonempty_snapshot [of 500 "[jobDone]" 6000 historyShown]
      cache_is_last_nonempty_snapshot [of _ _ _ fourInFlight 0
        "StatusResponse 200 (Some jobA_parsing)"]
    by (simp add: response_ok_def historyShown_lists none)
qed

text \<open>
  C5. For a non-empty snapshot whose length differs from the cache's, or which holds a
  job id the cache lacks, the history list becomes the cards of the whole snapshot, in an
  order that is a permutation of the snapshot with \<open>created_at\<close> descending, and the
  snapshot becomes the cache.
\<close>

theorem full_rerender_on_new_ids:
  assumes "newJobs \<noteq> []"
    and "length newJobs \<noteq> length (jobs st) \<or>
         (\<exists>n \<in> set newJobs. job_id n \<notin> job_id ` set (jobs st))"
  shows "historyList (updateJobsSelectively now newJobs st) =
           map (createJobCardHTML now) (sort_key (\<lambda>j. - created_at j) newJobs) \<and>
         mset (sort_key (\<lambda>j. - created_at j) newJobs) = mset newJobs \<and>
         sorted_wrt (\<lambda>a b. created_at a \<ge> created_at b)
           (sort_key (\<lambda>j. - created_at j) newJobs) \<and>
         jobs (updateJobsSelectively now newJobs st) = newJobs \<and>
         \<not> historyList_hidden (updateJobsSelectively now newJobs st)"
proof -
  have "sorted (map (\<lambda>j. - created_at j) (sort_key (\<lambda>j. - created_at j) newJobs))"
    by (rule sorted_sort_key)
  then have "sorted_wrt (\<lambda>a b. created_at a \<ge> created_at b)
           (sort_key (\<lambda>j. - created_at j) newJobs)"
    by (simp add: sorted_wrt_map)
  then show ?thesis
    using assms by (simp add: update_full renderJobs_fields fullRender_def renderJobs_def Let_def)
qed

theorem full_rerender_on_new_ids_witness:
  "historyList (updateJobsSelectively 5000 [jobA, jobDone] pageLoad) =
     [createJobCardHTML 5000 jobDone, createJobCardHTML 5000 jobA] \<and>
   historyList (updateJobsSelectively 6000 [jobA] doneShown) = [createJobCardHTML 6000 jobA]"
  using full_rerender_on_new_ids [of "[jobA, jobDone]" pageLoad 5000]
    full_rerender_on_new_ids [of "[jobA]" doneShown 6000]
  by (simp add: pageLoad_lists doneShown_lists example_job_fields)

subsection \<open>Patching single cards\<close>

lemma card_job_id_create [simp]: "card_job_id (createJobCardHTML now j) = job_id j"
  by (simp add: createJobCardHTML_def)

lemma replaceWith_present:
  "jid \<in> card_job_id ` set cs \<Longrightarrow> distinct (map card_job_id cs) \<Longrightarrow>
   replaceWith jid new cs = Some (map (\<lambda>c. if card_job_id c = jid then new else c) cs)"
proof (induction cs)
  case Nil
  then show ?case by simp
next
  case (Cons c cs)
  show ?case
  proof (cases "card_job_id c = jid")
    case True
    then have "jid \<notin> card_job_id ` set cs" using Cons.prems(2) by simp
    then have "\<forall>x \<in> set cs. card_job_id x \<noteq> jid" by blast
    then have "map (\<lambda>c. if card_job_id c = jid then new else c) cs = cs"
      by (simp add: map_idI)
    then show ?thesis using True by simp
  next
    case False
    then show ?thesis using Cons by auto
  qed
qed

lemma find_job_Some:
  "find (\<lambda>j. job_id j = x) js = Some j \<Longrightarrow> job_id j = x \<and> j \<in> set js"
  by (induction js) (auto split: if_splits)

lemma map_replace_ids:
  "card_job_id new = jid \<Longrightarrow>
   map card_job_id (map (\<lambda>c. if card_job_id c = jid then new else c) cs) = map card_job_id cs"
  by (induction cs) auto

lemma updateSpecificCards_cards:
  assumes "distinct (map card_job_id (historyList st))"
    and "\<forall>j \<in> set upd. job_id j \<in> card_job_id ` set (historyList st)"
    and "distinct (map job_id upd)"
  shows "historyList (updateSpecificCards now upd st) =
         map (\<lambda>c. case find (\<lambda>j. job_id j = card_job_id c) upd of
                     None \<Rightarrow> c
                   | Some j \<Rightarrow> createJobCardHTML now j) (historyList st)"
  using assms
proof (induction upd arbitrary: st)
  case Nil
  then show ?case by (simp add: map_idI)
next
  case (Cons j js)
  let ?h = "\<lambda>c. if card_job_id c = job_id j then createJobCardHTML now j else c"
  let ?g = "\<lambda>upd c. case find (\<lambda>j. job_id j = card_job_id c) upd of
                     None \<Rightarrow> c
                   | Some j \<Rightarrow> createJobCardHTML now j"
  let ?cards = "map ?h (historyList st)"
  let ?st = "st\<lparr>historyList := ?cards\<rparr>"
  have rep: "replaceWith (job_id j) (createJobCardHTML now j) (historyList st) = Some ?cards"
    using Cons.prems by (simp add: replaceWith_present)
  have ids: "map card_job_id ?cards = map card_job_id (historyList st)"
    by (rule map_replace_ids) simp
  have step: "updateSpecificCards now (j # js) st = updateSpecificCards now js ?st"
    using rep by simp
  have cur: "historyList ?st = ?cards" by simp
  have "distinct (map card_job_id ?cards)"
    using Cons.prems(1) by (simp only: ids)
  then have d: "distinct (map card_job_id (historyList ?st))"
    by (simp only: cur)
  have "card_job_id ` set ?cards = card_job_id ` set (historyList st)"
    using arg_cong [OF ids, of set] by (simp only: set_map)
  then have p: "\<forall>j \<in> set js. job_id j \<in> card_job_id ` set (historyList ?st)"
    using Cons.prems(2) by simp
  have q: "distinct (map job_id js)" using Cons.prems(3) by simp
  have fresh: "find (\<lambda>n. job_id n = job_id j) js = None"
    using Cons.prems(3) by (simp add: find_job_None)
  have "historyList (updateSpecificCards now js ?st) = map (?g js) (historyList ?st)"
    by (rule Cons.IH [OF d p q])
  also have "\<dots> = map (\<lambda>c. ?g js (?h c)) (historyList st)"
    by (simp add: comp_def)
  also have "\<dots> = map (?g (j # js)) (historyList st)"
  proof (rule map_cong [OF refl])
    fix c
    assume "c \<in> set (historyList st)"
    show "?g js (?h c) = ?g (j # js) c"
    proof (cases "card_job_id c = job_id j")
      case True
      then show ?thesis using fresh by simp
    next
      case False
      then have "job_id j \<noteq> card_job_id c" by simp
      then show ?thesis using False by simp
    qed
  qed
  finally show ?case using step by simp
qed

lemma updateSpecificCards_ids:
  assumes "distinct (map card_job_id (historyList st))"
    and "\<forall>j \<in> set upd. job_id j \<in> card_job_id ` set (historyList st)"
    and "distinct (map job_id upd)"
  shows "map card_job_id (historyList (updateSpecificCards now upd st)) =
         map card_job_id (historyList st)"
proof -
  have "\<And>c. card_job_id (case find (\<lambda>j. job_id j = card_job_id c) upd of
                     None \<Rightarrow> c
                   | Some j \<Rightarrow> createJobCardHTML now j) = card_job_id c"
  proof -
    fix c
    show "card_job_id (case find (\<lambda>j. job_id j = card_job_id c) upd of
                     None \<Rightarrow> c
                   | Some j \<Rightarrow> createJobCardHTML now j) = card_job_id c"
      by (cases "find (\<lambda>j. job_id j = card_job_id c) upd")
        (auto dest: find_job_Some)
  qed
  then show ?thesis
    by (simp add: updateSpecificCards_cards [OF assms] comp_def)
qed

lemma find_distinct_job:
  "distinct (map job_id js) \<Longrightarrow> j \<in> set js \<Longrightarrow>
   find (\<lambda>x. job_id x = job_id j) js = Some j"
  by (induction js) force+

lemma find_filter_distinct:
  "distinct (map job_id js) \<Longrightarrow>
   find (\<lambda>n. job_id n = x) (filter P js) =
     (case find (\<lambda>n. job_id n = x) js of
        None \<Rightarrow> None
      | Some n \<Rightarrow> if P n then Some n else None)"
proof (induction js)
  case Nil
  show ?case by simp
next
  case (Cons j js)
  show ?case
  proof (cases "job_id j = x")
    case True
    then have "x \<notin> job_id ` set js" using Cons.prems by simp
    then have "x \<notin> job_id ` set (filter P js)" by auto
    then have "find (\<lambda>n. job_id n = x) (filter P js) = None"
      by (simp add: find_job_None)
    then show ?thesis using True by simp
  next
    case False
    then show ?thesis using Cons by simp
  qed
qed

lemma selective_patch_cards:
  assumes "newJobs \<noteq> []" and "length newJobs = length (jobs st)"
    and "\<forall>n \<in> set newJobs. job_id n \<in> job_id ` set (jobs st)"
    and "distinct (map job_id newJobs)"
    and "cardsInSync st"
  shows "historyList (updateJobsSelectively now newJobs st) =
         map (\<lambda>c. case find (\<lambda>n. job_id n = card_job_id c) newJobs of
                     None \<Rightarrow> c
                   | Some n \<Rightarrow>
                       if markedChanged (jobs st) n then createJobCardHTML now n else c)
           (historyList st)"
proof -
  let ?upd = "filter (markedChanged (jobs st)) newJobs"
  let ?st = "st\<lparr>historyLoading_hidden := True, historyEmpty_hidden := True,
               historyList_hidden := False, jobs := newJobs\<rparr>"
  have d: "distinct (map card_job_id (historyList ?st))"
    using assms(5) by (simp add: cardsInSync_def)
  have p: "\<forall>j \<in> set ?upd. job_id j \<in> card_job_id ` set (historyList ?st)"
    using assms(3,5) by (auto simp add: cardsInSync_def)
  have q: "distinct (map job_id ?upd)"
    using assms(4) by (simp add: distinct_map_filter)
  have "historyList (updateJobsSelectively now newJobs st) =
        historyList (updateSpecificCards now ?upd ?st)"
    using update_selective(2) [OF assms(1,2,3)] by simp
  also have "\<dots> = map (\<lambda>c. case find (\<lambda>j. job_id j = card_job_id c) ?upd of
                     None \<Rightarrow> c
                   | Some j \<Rightarrow> createJobCardHTML now j) (historyList ?st)"
    by (rule updateSpecificCards_cards [OF d p q])
  also have "\<dots> = map (\<lambda>c. case find (\<lambda>n. job_id n = card_job_id c) newJobs of
                     None \<Rightarrow> c
                   | Some n \<Rightarrow>
                       if markedChanged (jobs st) n then createJobCardHTML now n else c)
           (historyList st)"
    by (simp add: find_filter_distinct [OF assms(4)] split: option.splits cong: map_cong)
  finally show ?thesis .
qed

subsection \<open>Cards and cache stay in step\<close>

lemma cardsInSync_cong:
  "jobs st' = jobs st \<Longrightarrow> historyList st' = historyList st \<Longrightarrow>
   cardsInSync st' = cardsInSync st"
  by (simp add: cardsInSync_def)

lemma renderFileList_lists:
  "jobs (renderFileList st) = jobs st" "historyList (renderFileList st) = historyList st"
  by (simp_all add: renderFileList_def)

lemma resetUploadUI_lists:
  "jobs (resetUploadUI st) = jobs st" "historyList (resetUploadUI st) = historyList st"
  by (simp_all add: resetUploadUI_def renderFileList_lists)

lemma selection_steps_lists:
  "jobs (handleFiles files st) = jobs st" "historyList (handleFiles files st) = historyList st"
  "jobs (removeFile index st) = jobs st" "historyList (removeFile index st) = historyList st"
  "jobs (clearFiles st) = jobs st" "historyList (clearFiles st) = historyList st"
  "jobs (uploadFiles_start st) = jobs st" "historyList (uploadFiles_start st) = historyList st"
  by (simp_all add: handleFiles_def removeFile_def clearFiles_def uploadFiles_start_def
      renderFileList_lists Let_def)

lemma uploadFiles_finish_lists:
  "jobs (uploadFiles_finish uresp st) = jobs st"
  "historyList (uploadFiles_finish uresp st) = historyList st"
  by (cases uresp; simp add: uploadFiles_finish_def resetUploadUI_lists startJobMonitoring_def
      Let_def split: option.splits)+

lemma showEmptyHistory_lists:
  "jobs (showEmptyHistory st) = jobs st" "historyList (showEmptyHistory st) = historyList st"
  by (simp_all add: showEmptyHistory_def)

lemma fullRender_ids:
  "map card_job_id (fullRender now js) = map job_id (sort_key (\<lambda>j. - created_at j) js)"
  by (simp add: fullRender_def comp_def)

lemma distinct_sorted_ids:
  "distinct (map job_id (sort_key (\<lambda>j. - created_at j) js)) = distinct (map job_id js)"
proof -
  have "mset (map job_id (sort_key (\<lambda>j. - created_at j) js)) = mset (map job_id js)"
    by simp
  then show ?thesis by (rule mset_eq_imp_distinct_iff)
qed

lemma updateJobsSelectively_inSync:
  assumes "cardsInSync st" and "distinct (map job_id newJobs)"
  shows "cardsInSync (updateJobsSelectively now newJobs st)"
proof (cases "newJobs = []")
  case True
  then show ?thesis
    using assms(1) by (simp add: update_empty showEmptyHistory_def cardsInSync_def)
next
  case False
  show ?thesis
  proof (cases "length newJobs \<noteq> length (jobs st) \<or>
         (\<exists>n \<in> set newJobs. job_id n \<notin> job_id ` set (jobs st))")
    case True
    have "set (map card_job_id (fullRender now newJobs)) = job_id ` set newJobs"
      by (simp only: fullRender_ids) simp
    then have "job_id ` set newJobs \<subseteq> card_job_id ` set (fullRender now newJobs)"
      by simp
    then show ?thesis
      using False True assms(2)
      by (simp add: update_full renderJobs_fields cardsInSync_def fullRender_ids
          distinct_sorted_ids)
  next
    case c: False
    then have same: "length newJobs = length (jobs st)"
      and present: "\<forall>n \<in> set newJobs. job_id n \<in> job_id ` set (jobs st)" by auto
    let ?upd = "filter (markedChanged (jobs st)) newJobs"
    let ?st = "st\<lparr>historyLoading_hidden := True, historyEmpty_hidden := True,
               historyList_hidden := False, jobs := newJobs\<rparr>"
    have d: "distinct (map card_job_id (historyList ?st))"
      using assms(1) by (simp add: cardsInSync_def)
    have p: "\<forall>j \<in> set ?upd. job_id j \<in> card_job_id ` set (historyList ?st)"
      using present assms(1) by (auto simp add: cardsInSync_def)
    have q: "distinct (map job_id ?upd)"
      using assms(2) by (simp add: distinct_map_filter)
    have ids: "map card_job_id (historyList (updateSpecificCards now ?upd ?st)) =
               map card_job_id (historyList st)"
      using updateSpecificCards_ids [OF d p q] by simp
    have eq: "updateJobsSelectively now newJobs st = updateSpecificCards now ?upd ?st"
      by (rule update_selective(2) [OF False same present])
    have "set (map card_job_id (historyList (updateSpecificCards now ?upd ?st))) =
          set (map card_job_id (historyList st))"
      by (simp only: ids)
    then have img: "card_job_id ` set (historyList (updateSpecificCards now ?upd ?st)) =
               card_job_id ` set (historyList st)"
      by (simp only: set_map)
    have "job_id ` set newJobs \<subseteq> card_job_id ` set (historyList st)"
      using present assms(1) by (auto simp add: cardsInSync_def)
    then show ?thesis
      unfolding eq cardsInSync_def updateSpecificCards_jobs ids img
      using assms(1) by (simp add: cardsInSync_def)
  qed
qed

lemma fetchJobs_inSync:
  assumes "cardsInSync st" and "distinct (map job_id newJobs)"
  shows "cardsInSync (fetchJobs now (JobsResponse code newJobs) st)"
  using assms
  by (simp add: fetchJobs_def updateJobsSelectively_inSync
      cardsInSync_cong [OF showEmptyHistory_lists])

lemma reachable_inSync: "reachable st \<Longrightarrow> cardsInSync st"
proof (induction rule: reachable.induct)
  case (reachable_load st)
  then show ?case by (simp add: cardsInSync_def)
next
  case (reachable_fetchJobs st newJobs now code)
  then show ?case by (simp add: fetchJobs_inSync)
next
  case (reachable_fetchJobs_failed st now)
  then show ?case
    by (simp add: fetchJobs_def cardsInSync_cong [OF showEmptyHistory_lists])
qed (simp_all add: cardsInSync_cong [OF selection_steps_lists(1,2)]
    cardsInSync_cong [OF selection_steps_lists(3,4)]
    cardsInSync_cong [OF selection_steps_lists(5,6)]
    cardsInSync_cong [OF selection_steps_lists(7,8)]
    cardsInSync_cong [OF uploadFiles_finish_lists]
    cardsInSync_cong [OF checkIntervalFires_lists]
    cardsInSync_cong [OF statusSettles_lists]
    cardsInSync_cong [OF resetTimeoutFires_lists])

text \<open>
  C6. In every reachable state, for a snapshot with one record per id that takes the
  per-job comparison path (same length as the cache, every id cached): the jobs collected
  for an update are exactly those that have changed in the specification's sense against
  their cached record, and the history list afterwards is the old one with exactly the
  cards of those jobs replaced by their new rendering, every other card untouched.
\<close>

theorem comparison_marks_and_patches:
  assumes "reachable st" and "distinct (map job_id newJobs)"
    and "newJobs \<noteq> []" and "length newJobs = length (jobs st)"
    and "\<forall>n \<in> set newJobs. job_id n \<in> job_id ` set (jobs st)"
  shows "collectJobsToUpdate (jobs st) newJobs [] =
           Some (filter (markedChanged (jobs st)) newJobs) \<and>
         historyList (updateJobsSelectively now newJobs st) =
           map (\<lambda>c. case find (\<lambda>n. job_id n = card_job_id c) newJobs of
                       None \<Rightarrow> c
                     | Some n \<Rightarrow>
                         if markedChanged (jobs st) n then createJobCardHTML now n else c)
             (historyList st)"
  using update_selective(1) [OF assms(3,4,5)]
    selective_patch_cards [OF assms(3,4,5,2) reachable_inSync [OF assms(1)]]
  by simp

theorem comparison_marks_and_patches_witness:
  "reachable historyShown \<and>
   collectJobsToUpdate (jobs historyShown) [jobA_parsing, jobDone_exported] [] =
     Some [jobA_parsing] \<and>
   historyList (updateJobsSelectively 6000 [jobA_parsing, jobDone_exported] historyShown) =
     [createJobCardHTML 5000 jobDone, createJobCardHTML 6000 jobA_parsing]"
proof -
  have r: "reachable historyShown"
    unfolding historyShown_def
    by (rule reachable_fetchJobs [OF reachable_load])
      (simp_all add: pageLoad_lists example_job_fields)
  have d: "distinct (map job_id [jobA_parsing, jobDone_exported])"
    by (simp add: example_job_fields)
  have n: "[jobA_parsing, jobDone_exported] \<noteq> []" by simp
  have l: "length [jobA_parsing, jobDone_exported] = length (jobs historyShown)"
    by (simp add: historyShown_lists)
  have p: "\<forall>n \<in> set [jobA_parsing, jobDone_exported]. job_id n \<in> job_id ` set (jobs historyShown)"
    by (simp add: historyShown_lists example_job_fields)
  have m: "markedChanged (jobs historyShown) jobA_parsing"
    "\<not> markedChanged (jobs historyShown) jobDone_exported"
    by (simp_all add: markedChanged_def historyShown_lists example_job_fields example_changes)
  show ?thesis
    using comparison_marks_and_patches [OF r d n l p, of 6000] r m
    by (simp add: historyShown_lists example_job_fields)
qed

subsection \<open>Selective patch against full re-render\<close>

lemma cached_ids_distinct:
  assumes "distinct (map job_id newJobs)" and "length newJobs = length oldJobs"
    and "\<forall>n \<in> set newJobs. job_id n \<in> job_id ` set oldJobs"
  shows "distinct (map job_id oldJobs)"
proof -
  have "card (set (map job_id newJobs)) = length newJobs"
    using assms(1) distinct_card [of "map job_id newJobs"] by simp
  moreover have "set (map job_id newJobs) \<subseteq> set (map job_id oldJobs)"
    using assms(3) by auto
  then have "card (set (map job_id newJobs)) \<le> card (set (map job_id oldJobs))"
    by (simp add: card_mono)
  moreover have "card (set (map job_id oldJobs)) \<le> length oldJobs"
    using card_length [of "map job_id oldJobs"] by simp
  ultimately have "card (set (map job_id oldJobs)) = length (map job_id oldJobs)"
    using assms(2) by simp
  then show ?thesis by (rule card_distinct)
qed

lemma rendered_inSync:
  assumes "historyList st = fullRender now (jobs st)" and "distinct (map job_id (jobs st))"
  shows "cardsInSync st"
proof -
  have "set (map card_job_id (fullRender now (jobs st))) = job_id ` set (jobs st)"
    by (simp only: fullRender_ids) simp
  then have "job_id ` set (jobs st) \<subseteq> card_job_id ` set (fullRender now (jobs st))"
    by simp
  then show ?thesis
    using assms by (simp add: cardsInSync_def fullRender_ids distinct_sorted_ids)
qed

lemma markedChanged_cached:
  assumes "distinct (map job_id oldJobs)" and "c \<in> set oldJobs" and "job_id n = job_id c"
  shows "markedChanged oldJobs n = spec_changed c n"
  using find_distinct_job [OF assms(1,2)] assms(3) by (simp add: markedChanged_def)

lemma patch_of_render:
  assumes "newJobs \<noteq> []" and "length newJobs = length (jobs st)"
    and "\<forall>n \<in> set newJobs. job_id n \<in> job_id ` set (jobs st)"
    and "distinct (map job_id newJobs)"
    and "historyList st = fullRender now (jobs st)"
  shows "historyList (updateJobsSelectively now newJobs st) =
         map (\<lambda>c. case find (\<lambda>n. job_id n = job_id c) newJobs of
                     None \<Rightarrow> createJobCardHTML now c
                   | Some n \<Rightarrow>
                       if spec_changed c n then createJobCardHTML now n
                       else createJobCardHTML now c)
           (sort_key (\<lambda>j. - created_at j) (jobs st))"
proof -
  have old: "distinct (map job_id (jobs st))"
    by (rule cached_ids_distinct [OF assms(4,2,3)])
  have sync: "cardsInSync st" by (rule rendered_inSync [OF assms(5) old])
  have "historyList (updateJobsSelectively now newJobs st) =
        map (\<lambda>c. case find (\<lambda>n. job_id n = card_job_id c) newJobs of
                     None \<Rightarrow> c
                   | Some n \<Rightarrow>
                       if markedChanged (jobs st) n then createJobCardHTML now n else c)
          (map (createJobCardHTML now) (sort_key (\<lambda>j. - created_at j) (jobs st)))"
    using selective_patch_cards [OF assms(1,2,3,4) sync, of now] assms(5)
    by (simp add: fullRender_def)
  also have "\<dots> = map (\<lambda>c. case find (\<lambda>n. job_id n = job_id c) newJobs of
                     None \<Rightarrow> createJobCardHTML now c
                   | Some n \<Rightarrow>
                       if spec_changed c n then createJobCardHTML now n
                       else createJobCardHTML now c)
           (sort_key (\<lambda>j. - created_at j) (jobs st))"
  proof -
    have "\<And>c. c \<in> set (jobs st) \<Longrightarrow>
        (case find (\<lambda>n. job_id n = job_id c) newJobs of
           None \<Rightarrow> createJobCardHTML now c
         | Some n \<Rightarrow> if markedChanged (jobs st) n then createJobCardHTML now n
                     else createJobCardHTML now c) =
        (case find (\<lambda>n. job_id n = job_id c) newJobs of
           None \<Rightarrow> createJobCardHTML now c
         | Some n \<Rightarrow> if spec_changed c n then createJobCardHTML now n
                     else createJobCardHTML now c)"
    proof -
      fix c
      assume c: "c \<in> set (jobs st)"
      show "(case find (\<lambda>n. job_id n = job_id c) newJobs of
           None \<Rightarrow> createJobCardHTML now c
         | Some n \<Rightarrow> if markedChanged (jobs st) n then createJobCardHTML now n
                     else createJobCardHTML now c) =
        (case find (\<lambda>n. job_id n = job_id c) newJobs of
           None \<Rightarrow> createJobCardHTML now c
         | Some n \<Rightarrow> if spec_changed c n then createJobCardHTML now n
                     else createJobCardHTML now c)"
      proof (cases "find (\<lambda>n. job_id n = job_id c) newJobs")
        case None
        then show ?thesis by simp
      next
        case (Some n)
        then have "job_id n = job_id c" by (auto dest: find_job_Some)
        then show ?thesis using Some markedChanged_cached [OF old c] by simp
      qed
    qed
    then show ?thesis by (simp add: comp_def cong: map_cong)
  qed
  finally show ?thesis .
qed

lemma card_id_of_patch:
  "card_job_id (case find (\<lambda>n. job_id n = job_id c) newJobs of
                     None \<Rightarrow> createJobCardHTML now c
                   | Some n \<Rightarrow>
                       if spec_changed c n then createJobCardHTML now n
                       else createJobCardHTML now c) = job_id c"
  by (cases "find (\<lambda>n. job_id n = job_id c) newJobs") (auto dest: find_job_Some)

text \<open>
  C1, as stated, fails: a completed job whose message has changed is not marked, so the
  selective patch leaves its old card in place, while a full re-render of the new
  snapshot shows the new message.
\<close>

theorem stale_card_after_selective_patch_counterexample:
  "length [jobDone_exported] = length (jobs doneShown) \<and>
   collectJobsToUpdate (jobs doneShown) [jobDone_exported] [] = Some [] \<and>
   historyList (updateJobsSelectively 5000 [jobDone_exported] doneShown) \<noteq>
     historyList (renderJobs 5000 (doneShown\<lparr>jobs := [jobDone_exported]\<rparr>))"
  by (simp add: updateJobsSelectively_def doneShown_lists example_job_fields Let_def
      renderJobs_def jobDone_def jobDone_exported_def createJobCardHTML_def)

text \<open>
  C1, amended. Take a snapshot with one record per id on the selective-patch path, and a
  history list that is the full render of the cache. Then the patched list equals the
  full re-render of the new snapshot exactly when the two snapshots sort into the same
  sequence of job ids and every job that has not changed in the comparison's sense
  renders to the same card as its cached record.
\<close>

theorem selective_patch_equals_full_render_iff:
  assumes "newJobs \<noteq> []" and "length newJobs = length (jobs st)"
    and "\<forall>n \<in> set newJobs. job_id n \<in> job_id ` set (jobs st)"
    and "distinct (map job_id newJobs)"
    and "historyList st = historyList (renderJobs now st)"
  shows "historyList (updateJobsSelectively now newJobs st) =
           historyList (renderJobs now (st\<lparr>jobs := newJobs\<rparr>)) \<longleftrightarrow>
         map job_id (sort_key (\<lambda>j. - created_at j) newJobs) =
           map job_id (sort_key (\<lambda>j. - created_at j) (jobs st)) \<and>
         (\<forall>n \<in> set newJobs. \<forall>c.
            find (\<lambda>j. job_id j = job_id n) (jobs st) = Some c \<longrightarrow>
            \<not> spec_changed c n \<longrightarrow>
            createJobCardHTML now n = createJobCardHTML now c)"
proof -
  let ?So = "sort_key (\<lambda>j. - created_at j) (jobs st)"
  let ?Sn = "sort_key (\<lambda>j. - created_at j) newJobs"
  let ?G = "\<lambda>c. case find (\<lambda>n. job_id n = job_id c) newJobs of
                     None \<Rightarrow> createJobCardHTML now c
                   | Some n \<Rightarrow>
                       if spec_changed c n then createJobCardHTML now n
                       else createJobCardHTML now c"
  have h5: "historyList st = fullRender now (jobs st)"
    using assms(5) by (simp add: renderJobs_fields)
  have old: "distinct (map job_id (jobs st))"
    by (rule cached_ids_distinct [OF assms(4,2,3)])
  have patched: "historyList (updateJobsSelectively now newJobs st) = map ?G ?So"
    by (rule patch_of_render [OF assms(1,2,3,4) h5])
  have full: "historyList (renderJobs now (st\<lparr>jobs := newJobs\<rparr>)) =
              map (createJobCardHTML now) ?Sn"
    by (simp add: renderJobs_def Let_def)
  have Gid: "map card_job_id (map ?G ?So) = map job_id ?So"
    by (simp add: comp_def card_id_of_patch)
  have "map ?G ?So = map (createJobCardHTML now) ?Sn \<longleftrightarrow>
        map job_id ?Sn = map job_id ?So \<and>
         (\<forall>n \<in> set newJobs. \<forall>c.
            find (\<lambda>j. job_id j = job_id n) (jobs st) = Some c \<longrightarrow>
            \<not> spec_changed c n \<longrightarrow>
            createJobCardHTML now n = createJobCardHTML now c)"
    (is "?L \<longleftrightarrow> ?O \<and> ?U")
  proof
    assume L: ?L
    have cid: "map card_job_id (map (createJobCardHTML now) ?Sn) = map job_id ?Sn"
      by (simp add: comp_def)
    have "map card_job_id (map ?G ?So) = map card_job_id (map (createJobCardHTML now) ?Sn)"
      by (rule arg_cong [OF L])
    then have O: ?O unfolding Gid cid by (rule sym)
    have U: ?U
    proof (intro ballI allI impI)
      fix n c
      assume n: "n \<in> set newJobs"
        and f: "find (\<lambda>j. job_id j = job_id n) (jobs st) = Some c"
        and u: "\<not> spec_changed c n"
      from f have c: "c \<in> set (jobs st)" and id: "job_id c = job_id n"
        by (auto dest: find_job_Some)
      have "find (\<lambda>x. job_id x = job_id c) newJobs = Some n"
        using find_distinct_job [OF assms(4) n] id by simp
      then have "?G c = createJobCardHTML now c" using u by simp
      moreover have "?G c \<in> set (map ?G ?So)" using c by simp
      ultimately have "createJobCardHTML now c \<in> set (map (createJobCardHTML now) ?Sn)"
        using L by simp
      then obtain m where m: "m \<in> set newJobs"
        and eq: "createJobCardHTML now m = createJobCardHTML now c"
        by auto
      have "job_id m = job_id n"
        using arg_cong [OF eq, of card_job_id] id by simp
      then have "find (\<lambda>x. job_id x = job_id n) newJobs = Some m"
        using find_distinct_job [OF assms(4) m] by simp
      then have "m = n" using find_distinct_job [OF assms(4) n] by simp
      then show "createJobCardHTML now n = createJobCardHTML now c" using eq by simp
    qed
    from O U show "?O \<and> ?U" ..
  next
    assume OU: "?O \<and> ?U"
    then have O: ?O and U: ?U by blast+
    have len: "length ?So = length ?Sn"
      using arg_cong [OF O, of length] by simp
    show ?L
    proof (rule nth_equalityI)
      show "length (map ?G ?So) = length (map (createJobCardHTML now) ?Sn)"
        using len by simp
    next
      fix i
      assume "i < length (map ?G ?So)"
      then have i: "i < length ?So" "i < length ?Sn" using len by simp_all
      let ?c = "?So ! i" and ?n = "?Sn ! i"
      have c: "?c \<in> set (jobs st)" using i(1) nth_mem [of i ?So] by simp
      have n: "?n \<in> set newJobs" using i(2) nth_mem [of i ?Sn] by simp
      have "map job_id ?Sn ! i = map job_id ?So ! i" using O by simp
      then have id: "job_id ?n = job_id ?c" using i by simp
      have fn: "find (\<lambda>x. job_id x = job_id ?c) newJobs = Some ?n"
        using find_distinct_job [OF assms(4) n] id by simp
      have fo: "find (\<lambda>j. job_id j = job_id ?n) (jobs st) = Some ?c"
        using find_distinct_job [OF old c] id by simp
      have "?G ?c = createJobCardHTML now ?n"
      proof (cases "spec_changed ?c ?n")
        case True
        then show ?thesis using fn by simp
      next
        case False
        then have "createJobCardHTML now ?n = createJobCardHTML now ?c"
          using U n fo by blast
        then show ?thesis using fn False by simp
      qed
      then show "map ?G ?So ! i = map (createJobCardHTML now) ?Sn ! i"
        using i by simp
    qed
  qed
  then show ?thesis unfolding patched full .
qed

theorem selective_patch_equals_full_render_iff_witness:
  "historyList (updateJobsSelectively 5000 [jobA_parsing, jobDone] historyShown) =
     historyList (renderJobs 5000 (historyShown\<lparr>jobs := [jobA_parsing, jobDone]\<rparr>)) \<and>
   historyList (updateJobsSelectively 5000 [jobDone_exported] doneShown) \<noteq>
     historyList (renderJobs 5000 (doneShown\<lparr>jobs := [jobDone_exported]\<rparr>))"
proof -
  have a: "historyList (updateJobsSelectively 5000 [jobA_parsing, jobDone] historyShown) =
     historyList (renderJobs 5000 (historyShown\<lparr>jobs := [jobA_parsing, jobDone]\<rparr>))"
    using selective_patch_equals_full_render_iff [of "[jobA_parsing, jobDone]" historyShown 5000]
    by (simp add: historyShown_lists example_job_fields example_changes renderJobs_fields
        fullRender_def)
  have b: "historyList (updateJobsSelectively 5000 [jobDone_exported] doneShown) \<noteq>
     historyList (renderJobs 5000 (doneShown\<lparr>jobs := [jobDone_exported]\<rparr>))"
    using selective_patch_equals_full_render_iff [of "[jobDone_exported]" doneShown 5000]
    by (simp add: doneShown_lists example_job_fields example_changes renderJobs_fields
        fullRender_def)
  from a b show ?thesis ..
qed

end
